theory Spec2Isabelle
  imports Complex_Main "HOL-Library.Multiset"
begin

section \<open>Ontology entities (ontology.ts)\<close>

text \<open>
  \<^verbatim>\<open>OntologyEntity\<close> is the base object of every taxonomy entry; \<^verbatim>\<open>Occupation\<close>,
  \<^verbatim>\<open>Industry\<close>, \<^verbatim>\<open>Process\<close> and \<^verbatim>\<open>Task\<close> extend it. The field \<^verbatim>\<open>id\<close> is written
  \<open>idE\<close> and \<^verbatim>\<open>type\<close> is written \<open>typeE\<close>, since both names are taken in HOL.
  Strings are lists of 8-bit characters: identifiers and names are taken to be
  ASCII/Latin-1 text.
\<close>

record OntologyEntity =
  ns :: string
  typeE :: string
  idE :: string
  name :: string
  description :: string
  code :: string
  shortName :: string
  sourceType :: string

record Occupation = OntologyEntity +
  occupationCode :: string

record Industry = OntologyEntity +
  level :: int

record Process = OntologyEntity +
  level :: int

record Task = OntologyEntity +
  verb :: string
  object :: string
  preposition :: "string option"
  prepObject :: "string option"
  source :: string

section \<open>Hypothesis (hypothesis.ts)\<close>

record DimensionFilter =
  ids :: "string list option"
  excludeIds :: "string list option"
  levels :: "int list option"
  namePattern :: "string option"
  limit :: "nat option"

text \<open>The field \<^verbatim>\<open>filter\<close> of \<^verbatim>\<open>OntologyDimensionConfig\<close> is written \<open>filterD\<close>.\<close>

record OntologyDimensionConfig =
  enabled :: bool
  filterD :: "DimensionFilter option"
  priority :: int

record HypothesisDimensions =
  occupations :: OntologyDimensionConfig
  industries :: OntologyDimensionConfig
  processes :: OntologyDimensionConfig
  tasks :: OntologyDimensionConfig
  services :: OntologyDimensionConfig
  technologies :: OntologyDimensionConfig

record HypothesisConstraints =
  minScore :: int
  maxStartups :: "nat option"
  requireIndustry :: bool
  requireOccupation :: bool

text \<open>
  Of \<^verbatim>\<open>Hypothesis\<close> the fields read by the generation functions and the ontology
  configuration are kept; the business-model defaults and the metadata are left to the
  record's extension slot.
\<close>

record Hypothesis =
  hypId :: string
  hypName :: string
  thesis :: string
  hypDescription :: string
  dimensions :: HypothesisDimensions
  constraints :: HypothesisConstraints

section \<open>Concept identifiers (ai/generate-startup.ts)\<close>

record GenerateConceptInput =
  hypothesis :: Hypothesis
  occupation :: "Occupation option"
  industry :: "Industry option"
  process :: "Process option"
  task :: "Task option"

text \<open>\<^verbatim>\<open>Number.prototype.toString(36)\<close> on a non-negative integer.\<close>

definition digit36 :: "nat \<Rightarrow> char" where
  "digit36 d = ''0123456789abcdefghijklmnopqrstuvwxyz'' ! d"

function toString36 :: "nat \<Rightarrow> string" where
  "toString36 n = (if n < 36 then [digit36 n] else toString36 (n div 36) @ [digit36 (n mod 36)])"
  by pat_completeness auto
termination
  by (relation "measure (\<lambda>n. n)") auto

declare toString36.simps [simp del]

text \<open>\<^verbatim>\<open>x?.id || 'gen'\<close>: an absent entity and an empty id both give \<^verbatim>\<open>'gen'\<close>.\<close>

definition idOrGen :: "string option \<Rightarrow> string" where
  "idOrGen x = (case x of None \<Rightarrow> ''gen'' | Some s \<Rightarrow> if s = [] then ''gen'' else s)"

text \<open>\<^verbatim>\<open>Array.prototype.join\<close>.\<close>

fun join :: "string \<Rightarrow> string list \<Rightarrow> string" where
  "join sep [] = []"
| "join sep [p] = p"
| "join sep (p # q # ps) = p @ sep @ join sep (q # ps)"

text \<open>\<^verbatim>\<open>toLowerCase\<close> on the letters \<^verbatim>\<open>A-Z\<close>; every other 8-bit character that it
  would change is outside \<^verbatim>\<open>[a-z0-9-]\<close> before and after, so the filter below removes it
  either way.\<close>

definition toLowerChar :: "char \<Rightarrow> char" where
  "toLowerChar c =
     (case map_of (zip ''ABCDEFGHIJKLMNOPQRSTUVWXYZ'' ''abcdefghijklmnopqrstuvwxyz'') c of
        Some l \<Rightarrow> l
      | None \<Rightarrow> c)"

definition toLowerCase :: "string \<Rightarrow> string" where
  "toLowerCase s = map toLowerChar s"

text \<open>The character class \<^verbatim>\<open>[a-z0-9-]\<close>.\<close>

definition idChar :: "char \<Rightarrow> bool" where
  "idChar c = (c \<in> set ''abcdefghijklmnopqrstuvwxyz0123456789-'')"

text \<open>
  \<^verbatim>\<open>generateConceptId\<close> reads the clock (\<^verbatim>\<open>Date.now()\<close>); the reading is the explicit
  argument \<open>now\<close>, in milliseconds.
\<close>

definition generateConceptId :: "nat \<Rightarrow> 'a GenerateConceptInput_scheme \<Rightarrow> string" where
  "generateConceptId now input =
     (let parts = [hypId (hypothesis input),
                   idOrGen (map_option idE (occupation input)),
                   idOrGen (map_option idE (industry input)),
                   idOrGen (map_option idE (process input)),
                   toString36 now]
      in filter idChar (toLowerCase (join ''-'' parts)))"

subsection \<open>Sample data (test/enrich-sample.ts)\<close>

definition sampleHypothesis :: Hypothesis where
  "sampleHypothesis =
     \<lparr>hypId = ''headless-saas-for-agents'',
      hypName = ''Headless SaaS for AI Agents'',
      thesis = ''Build API-first SaaS products designed for AI agents to consume, not humans.'',
      hypDescription = ''As AI agents become primary users of business software, we need infrastructure designed for them.'',
      dimensions =
        \<lparr>occupations = \<lparr>enabled = True, filterD = None, priority = 8\<rparr>,
         industries = \<lparr>enabled = True, filterD = None, priority = 7\<rparr>,
         processes = \<lparr>enabled = True, filterD = None, priority = 9\<rparr>,
         tasks = \<lparr>enabled = True, filterD = None, priority = 6\<rparr>,
         services = \<lparr>enabled = False, filterD = None, priority = 5\<rparr>,
         technologies = \<lparr>enabled = True, filterD = None, priority = 7\<rparr>\<rparr>,
      constraints =
        \<lparr>minScore = 60, maxStartups = None, requireIndustry = False, requireOccupation = False\<rparr>\<rparr>"

definition sampleIndustry :: Industry where
  "sampleIndustry =
     \<lparr>ns = ''industries.org.ai'', typeE = ''Industry'',
      idE = ''ProfessionalScientificAndTechnicalServices'',
      name = ''Professional, Scientific, and Technical Services'',
      description = ''This sector comprises establishments that specialize in performing professional, scientific, and technical activities for others.'',
      code = ''54'', shortName = ''prstse'', sourceType = ''NAICS'', Industry.level = 1\<rparr>"

definition sampleOccupation :: Occupation where
  "sampleOccupation =
     \<lparr>ns = ''jobs.org.ai'', typeE = ''Job'', idE = ''ChiefFinancialOfficerCfo'',
      name = ''Chief Financial Officer (CFO)'',
      description = ''Plan, direct, or coordinate the financial activities of an organization at the highest level of management.'',
      code = ''11-1011.00'', shortName = ''chfiofcf'', sourceType = ''ONETAlternateTitle'',
      occupationCode = ''11-1011.00''\<rparr>"

definition sampleProcess :: Process where
  "sampleProcess =
     \<lparr>ns = ''process.org.ai'', typeE = ''Process'', idE = ''ManageFinancialResources'',
      name = ''Manage Financial Resources'',
      description = ''Managing the acquisition and use of financial resources.'',
      code = ''80000'', shortName = ''mafire'', sourceType = ''APQC'', Process.level = 1\<rparr>"

definition sampleConceptInput :: GenerateConceptInput where
  "sampleConceptInput =
     \<lparr>hypothesis = sampleHypothesis, occupation = Some sampleOccupation,
      industry = Some sampleIndustry, process = None, task = None\<rparr>"


text \<open>A second input with the same four ids: the industry has another display name and the
  hypothesis another thesis.\<close>

definition sampleConceptInput2 :: GenerateConceptInput where
  "sampleConceptInput2 =
     \<lparr>hypothesis = sampleHypothesis\<lparr>thesis := ''Agents first.''\<rparr>,
      occupation = Some sampleOccupation,
      industry = Some (sampleIndustry\<lparr>name := ''Professional Services''\<rparr>),
      process = None, task = None\<rparr>"

section \<open>Batch enrichment (ai/enrich-industry.ts, ai/enrich-occupation.ts, ai/enrich-process.ts)\<close>

text \<open>
  The four batch functions share one loop:
  \<^verbatim>\<open>
  const results = new Map()
  const concurrency = 5
  for (let i = 0; i < items.length; i += concurrency) {
    const batch = items.slice(i, i + concurrency)
    const enriched = await Promise.all(batch.map(item => enrich(item, options)))
    for (let j = 0; j < batch.length; j++) results.set(batch[j].id, enriched[j])
  }
  return results
  \<close>
  The call of \<^verbatim>\<open>enrich\<close> on an item (the unit of work) either fulfils with a value or
  rejects with an error: \<open>work :: 'a \<Rightarrow> 'e + 'r\<close>. What the loop does is recorded as a
  trace of events: \<open>Started x\<close> when \<^verbatim>\<open>batch.map\<close> issues the call for \<open>x\<close>, and
  \<open>Settled x\<close> when the awaited \<^verbatim>\<open>Promise.all\<close> sees that call settle. The calls of one
  chunk settle in the order of their latency (\<open>latency :: 'a \<Rightarrow> nat\<close>, ties in chunk
  order), which the program does not control.
\<close>

datatype 'a event = Started 'a | Settled 'a

text \<open>
  \<^verbatim>\<open>Promise.all\<close> watches the calls settle in turn. The first rejection rejects the combined
  promise at once, with that error; the calls still running are not waited for.
\<close>

fun settleUntilReject :: "('a \<Rightarrow> 'e + 'r) \<Rightarrow> 'a list \<Rightarrow> 'a event list \<times> 'e option" where
  "settleUntilReject work [] = ([], None)"
| "settleUntilReject work (x # xs) =
     (case work x of
        Inl e \<Rightarrow> ([Settled x], Some e)
      | Inr r \<Rightarrow> (case settleUntilReject work xs of (tr, res) \<Rightarrow> (Settled x # tr, res)))"

text \<open>The fulfilment value of \<^verbatim>\<open>Promise.all\<close>: the values of all calls, in the order of the
  array.\<close>

fun collect :: "('e + 'r) list \<Rightarrow> 'e + 'r list" where
  "collect [] = Inr []"
| "collect (Inl e # ps) = Inl e"
| "collect (Inr r # ps) = (case collect ps of Inl e \<Rightarrow> Inl e | Inr rs \<Rightarrow> Inr (r # rs))"

definition promiseAllMap ::
  "('a \<Rightarrow> nat) \<Rightarrow> ('a \<Rightarrow> 'e + 'r) \<Rightarrow> 'a list \<Rightarrow> 'a event list \<times> ('e + 'r list)" where
  "promiseAllMap latency work batch =
     (case settleUntilReject work (sort_key latency batch) of
        (tr, Some e) \<Rightarrow> (map Started batch @ tr, Inl e)
      | (tr, None) \<Rightarrow> (map Started batch @ tr, collect (map work batch)))"

text \<open>\<^verbatim>\<open>for (let j = 0; j < batch.length; j++) results.set(batch[j].id, enriched[j])\<close>\<close>

definition setAll :: "('a \<Rightarrow> string) \<Rightarrow> (string \<rightharpoonup> 'r) \<Rightarrow> 'a list \<Rightarrow> 'r list \<Rightarrow> (string \<rightharpoonup> 'r)" where
  "setAll key results batch enriched =
     foldl (\<lambda>m (x, r). m(key x \<mapsto> r)) results (zip batch enriched)"

text \<open>
  The loop, with the index \<open>i\<close>, the result map and the trace as its state. It returns the
  trace together with the error that rejected the batch call or the result map. With
  \<open>concurrency = 0\<close> the index would never advance, so the loop is a partial function; the
  source fixes the constant at 5 or 3.
\<close>

partial_function (option) batchLoop ::
  "nat \<Rightarrow> ('a \<Rightarrow> nat) \<Rightarrow> ('a \<Rightarrow> 'e + 'r) \<Rightarrow> ('a \<Rightarrow> string) \<Rightarrow> 'a list \<Rightarrow> nat
     \<Rightarrow> (string \<rightharpoonup> 'r) \<Rightarrow> 'a event list \<Rightarrow> ('a event list \<times> ('e + (string \<rightharpoonup> 'r))) option" where
  "batchLoop concurrency latency work key items i results trace =
     (if i < length items then
        (let batch = take concurrency (drop i items) in
         case promiseAllMap latency work batch of
           (tr, Inl e) \<Rightarrow> Some (trace @ tr, Inl e)
         | (tr, Inr enriched) \<Rightarrow>
             batchLoop concurrency latency work key items (i + concurrency)
               (setAll key results batch enriched) (trace @ tr))
      else Some (trace, Inr results))"

declare batchLoop.simps [code]

text \<open>
  The exported functions. The per-item function (\<^verbatim>\<open>enrichIndustry\<close>, \<^verbatim>\<open>enrichOccupation\<close>,
  \<^verbatim>\<open>enrichProcess\<close>, \<^verbatim>\<open>enrichTask\<close>, each with its generation collaborator) is the
  argument \<open>enrich\<close>. The un-awaited call \<^verbatim>\<open>ensureConfigured()\<close> only touches the
  configuration flag of the collaborator and is left out.
\<close>

definition enrichIndustriesBatch ::
  "('x Industry_scheme \<Rightarrow> 'o \<Rightarrow> 'e + 'r) \<Rightarrow> ('x Industry_scheme \<Rightarrow> nat) \<Rightarrow> 'x Industry_scheme list \<Rightarrow> 'o
     \<Rightarrow> ('x Industry_scheme event list \<times> ('e + (string \<rightharpoonup> 'r))) option" where
  "enrichIndustriesBatch enrich latency inds options =
     batchLoop 5 latency (\<lambda>industry. enrich industry options) idE inds 0 Map.empty []"

definition enrichOccupationsBatch ::
  "('x Occupation_scheme \<Rightarrow> 'o \<Rightarrow> 'e + 'r) \<Rightarrow> ('x Occupation_scheme \<Rightarrow> nat) \<Rightarrow> 'x Occupation_scheme list \<Rightarrow> 'o
     \<Rightarrow> ('x Occupation_scheme event list \<times> ('e + (string \<rightharpoonup> 'r))) option" where
  "enrichOccupationsBatch enrich latency occs options =
     batchLoop 3 latency (\<lambda>occupation. enrich occupation options) idE occs 0 Map.empty []"

definition enrichProcessesBatch ::
  "('x Process_scheme \<Rightarrow> 'o \<Rightarrow> 'e + 'r) \<Rightarrow> ('x Process_scheme \<Rightarrow> nat) \<Rightarrow> 'x Process_scheme list \<Rightarrow> 'o
     \<Rightarrow> ('x Process_scheme event list \<times> ('e + (string \<rightharpoonup> 'r))) option" where
  "enrichProcessesBatch enrich latency procs options =
     batchLoop 3 latency (\<lambda>process. enrich process options) idE procs 0 Map.empty []"

definition enrichTasksBatch ::
  "('x Task_scheme \<Rightarrow> 'o \<Rightarrow> 'e + 'r) \<Rightarrow> ('x Task_scheme \<Rightarrow> nat) \<Rightarrow> 'x Task_scheme list \<Rightarrow> 'o
     \<Rightarrow> ('x Task_scheme event list \<times> ('e + (string \<rightharpoonup> 'r))) option" where
  "enrichTasksBatch enrich latency tsks options =
     batchLoop 5 latency (\<lambda>task. enrich task options) idE tsks 0 Map.empty []"

subsection \<open>Observers of a trace\<close>


text \<open>The items whose call was started, in the order of the calls.\<close>

fun started :: "'a event list \<Rightarrow> 'a list" where
  "started [] = []"
| "started (Started x # es) = x # started es"
| "started (Settled x # es) = started es"

text \<open>
  The chunk discipline, replayed over a trace. \<open>n\<close> counts the calls started so far and
  \<open>infl\<close> holds the calls in flight.
  \<^item> A call is started for the next item in input order; at most \<open>c\<close> calls are then in
    flight; a call that opens a chunk (\<open>n mod c = 0\<close>) starts when nothing is in flight,
    and a later call of the chunk starts before any call of the chunk has settled.
  \<^item> A call that settles was in flight, and every call of its chunk had been started.
\<close>

fun chunkDiscipline :: "nat \<Rightarrow> 'a list \<Rightarrow> nat \<Rightarrow> 'a multiset \<Rightarrow> 'a event list \<Rightarrow> bool" where
  "chunkDiscipline c items n infl [] = True"
| "chunkDiscipline c items n infl (Started x # es) =
     (n < length items \<and> x = items ! n \<and> size infl < c \<and> size infl = n mod c
      \<and> chunkDiscipline c items (Suc n) (add_mset x infl) es)"
| "chunkDiscipline c items n infl (Settled x # es) =
     (x \<in># infl \<and> (n mod c = 0 \<or> n = length items)
      \<and> chunkDiscipline c items n (infl - {#x#}) es)"

text \<open>The state of the replay after a sequence of events.\<close>

fun replay :: "nat \<times> 'a multiset \<Rightarrow> 'a event list \<Rightarrow> nat \<times> 'a multiset" where
  "replay s [] = s"
| "replay (n, infl) (Started x # es) = replay (Suc n, add_mset x infl) es"
| "replay (n, infl) (Settled x # es) = replay (n, infl - {#x#}) es"

subsection \<open>The result map of a run without failure\<close>

text \<open>Each item's value is stored under the item's id; a later item with the same id
  overwrites an earlier one.\<close>

definition record1 :: "('a \<Rightarrow> string) \<Rightarrow> ('a \<Rightarrow> 'e + 'r) \<Rightarrow> (string \<rightharpoonup> 'r) \<Rightarrow> 'a \<Rightarrow> (string \<rightharpoonup> 'r)" where
  "record1 key work m x = (case work x of Inr r \<Rightarrow> m(key x \<mapsto> r) | Inl e \<Rightarrow> m)"

definition resultMap :: "('a \<Rightarrow> string) \<Rightarrow> ('a \<Rightarrow> 'e + 'r) \<Rightarrow> 'a list \<Rightarrow> (string \<rightharpoonup> 'r)" where
  "resultMap key work items = foldl (record1 key work) Map.empty items"

text \<open>The position of the first item whose call fails (the length of the list if none
  does).\<close>

definition succeeds :: "('a \<Rightarrow> 'e + 'r) \<Rightarrow> 'a \<Rightarrow> bool" where
  "succeeds work x = (case work x of Inr r \<Rightarrow> True | Inl e \<Rightarrow> False)"

definition firstFailure :: "('a \<Rightarrow> 'e + 'r) \<Rightarrow> 'a list \<Rightarrow> nat" where
  "firstFailure work items = length (takeWhile (succeeds work) items)"

subsection \<open>Sample runs\<close>

definition industryNamed :: "string \<Rightarrow> Industry" where
  "industryNamed s =
     \<lparr>ns = ''industries.org.ai'', typeE = ''Industry'', idE = s, name = s, description = [],
      code = [], shortName = s, sourceType = ''NAICS'', Industry.level = 2\<rparr>"

definition sevenIndustries :: "Industry list" where
  "sevenIndustries = map industryNamed [''a'', ''b'', ''c'', ''d'', ''e'', ''f'', ''g'']"

definition processNamed :: "string \<Rightarrow> Process" where
  "processNamed s =
     \<lparr>ns = ''process.org.ai'', typeE = ''Process'', idE = s, name = s, description = [],
      code = [], shortName = s, sourceType = ''APQC'', Process.level = 1\<rparr>"

definition fourProcesses :: "Process list" where
  "fourProcesses = map processNamed [''p'', ''q'', ''r'', ''s'']"

text \<open>A stand-in for the per-item enrichment: it fails on the listed ids.\<close>

definition stubEnrich :: "string list \<Rightarrow> 'x OntologyEntity_scheme \<Rightarrow> unit \<Rightarrow> string + string" where
  "stubEnrich failing entity options =
     (if idE entity \<in> set failing then Inl (''generation failed: '' @ idE entity)
      else Inr (''enriched '' @ idE entity))"

section \<open>Industry enrichment (ai/enrich-industry.ts)\<close>

subsection \<open>Shapes (enrichments.ts)\<close>

text \<open>
  The objects the generation collaborator returns are taken to have their declared
  shape. Where the code guards a property (\<^verbatim>\<open>bt.marketDynamics?.regulation\<close>,
  \<^verbatim>\<open>if (canvas.valuePropositions)\<close>, \<^verbatim>\<open>if (vp.pains)\<close>) the property is optional here.
  Fields whose names are taken by an earlier record carry a suffix.
\<close>

record MarketDynamics =
  competitiveness :: string
  consolidation :: string
  barriers :: string
  regulation :: string

record BusinessType =
  idB :: string
  nameB :: string
  category :: string
  descriptionB :: string
  marketDynamics :: "MarketDynamics option"

record ValuePropositionCanvas =
  propositionV :: string
  customerJobs :: "string list"
  pains :: "string list option"
  gains :: "string list"

record BusinessModelCanvas =
  valuePropositions :: "ValuePropositionCanvas list option"
  keyResources :: "string list"
  keyActivities :: "string list"
  keyPartners :: "string list"

record CompetitiveLandscape =
  marketLeaders :: "string list"
  emergingPlayers :: "string list"
  disruptors :: "string list"
  consolidationTrends :: string

record IndustryTrend =
  trend :: string
  descriptionT :: string
  impact :: string
  timeframe :: string
  opportunity :: string

record AIReadiness =
  dataAvailability :: string
  processStandardization :: string
  aiAdoption :: string
  topAIUseCases :: "string list"

record MarketSize =
  tam :: string
  sam :: string
  growth :: string

datatype TechAdoption = Laggard | EarlyMajority | LateMajority | Innovator

record EnrichedIndustry =
  industryId :: string
  businessTypes :: "BusinessType list"
  businessModelCanvas :: BusinessModelCanvas
  competitiveLandscape :: CompetitiveLandscape
  trends :: "IndustryTrend list"
  painPoints :: "string list"
  regulations :: "string list"
  technologyAdoption :: TechAdoption
  marketSize :: MarketSize
  aiReadiness :: AIReadiness

subsection \<open>The generation collaborator\<close>

text \<open>
  \<^verbatim>\<open>industryAI\<close> holds one generation function per result shape. Each takes the prompt
  and fulfils with an object of the shape or rejects with an error of type \<open>'e\<close>.
  \<^verbatim>\<open>businessTypes\<close> fulfils with \<^verbatim>\<open>{ types: [...] }\<close> and \<^verbatim>\<open>industryTrends\<close> with
  \<^verbatim>\<open>{ trends: [...] }\<close>; the wrappers are dropped here.
\<close>

record 'e IndustryAI =
  businessTypesAI :: "string \<Rightarrow> 'e + BusinessType list"
  businessModelCanvasAI :: "string \<Rightarrow> 'e + BusinessModelCanvas"
  competitiveLandscapeAI :: "string \<Rightarrow> 'e + CompetitiveLandscape"
  industryTrendsAI :: "string \<Rightarrow> 'e + IndustryTrend list"
  aiReadinessAI :: "string \<Rightarrow> 'e + AIReadiness"
  marketSizeAI :: "string \<Rightarrow> 'e + MarketSize"

datatype Depth = Basic | Standard | Comprehensive

record EnrichIndustryOptions =
  depth :: "Depth option"
  includeCompetitors :: "bool option"
  includeTrends :: "bool option"
  includeAIAnalysis :: "bool option"

subsection \<open>Prompts\<close>

definition nl :: string where
  "nl = [CHR 0x0A]"

definition digit10 :: "nat \<Rightarrow> char" where
  "digit10 d = ''0123456789'' ! d"

function showNat :: "nat \<Rightarrow> string" where
  "showNat n = (if n < 10 then [digit10 n] else showNat (n div 10) @ [digit10 (n mod 10)])"
  by pat_completeness auto
termination
  by (relation "measure (\<lambda>n. n)") auto

declare showNat.simps [simp del]

text \<open>A whole number inside a template literal.\<close>

definition showInt :: "int \<Rightarrow> string" where
  "showInt i = (if i < 0 then ''-'' @ showNat (nat (- i)) else showNat (nat i))"

definition industryContext :: "'x Industry_scheme \<Rightarrow> string" where
  "industryContext ind =
     nl @ ''Industry: '' @ name ind @ nl
     @ ''Description: '' @ description ind @ nl
     @ ''NAICS Code: '' @ code ind @ nl
     @ ''Level: '' @ showInt (Industry.level ind)
     @ '' (1=sector, 2=subsector, 3=industry group, 4=industry, 5=national industry)'' @ nl"

definition depthRange :: "Depth \<Rightarrow> string" where
  "depthRange d = (if d = Basic then ''3-5'' else if d = Standard then ''5-8'' else ''8-12'')"

definition businessTypesPrompt :: "'x Industry_scheme \<Rightarrow> Depth \<Rightarrow> string" where
  "businessTypesPrompt ind d =
     nl @ ''Analyze the '' @ name ind @ '' industry and identify the '' @ depthRange d
        @ '' most common business types operating in this space.'' @ nl
     @ nl
     @ industryContext ind @ nl
     @ nl
     @ ''For each business type, provide detailed analysis of market dynamics, economics, go-to-market approach, and AI opportunity.'' @ nl
     @ ''Focus on business types that would be relevant for a startup to consider entering.'' @ nl"

definition canvasPrompt :: "'x Industry_scheme \<Rightarrow> string" where
  "canvasPrompt ind =
     nl @ ''Create a comprehensive Business Model Canvas for a typical successful business in the ''
        @ name ind @ '' industry.'' @ nl
     @ nl
     @ industryContext ind @ nl
     @ nl
     @ ''This should represent the most common/successful business model pattern in this industry.'' @ nl
     @ ''Be specific with real examples where possible.'' @ nl"

definition competitorsPrompt :: "'x Industry_scheme \<Rightarrow> string" where
  "competitorsPrompt ind =
     nl @ ''Analyze the competitive landscape of the '' @ name ind @ '' industry.'' @ nl
     @ nl
     @ industryContext ind @ nl
     @ nl
     @ ''Identify market leaders, emerging players, and disruptors. Describe consolidation trends.'' @ nl
     @ ''Focus on companies that are relevant benchmarks for a new entrant.'' @ nl"

definition trendsPrompt :: "'x Industry_scheme \<Rightarrow> Depth \<Rightarrow> string" where
  "trendsPrompt ind d =
     nl @ ''Identify the '' @ depthRange d @ '' most important trends shaping the ''
        @ name ind @ '' industry.'' @ nl
     @ nl
     @ industryContext ind @ nl
     @ nl
     @ ''For each trend, explain the impact, timeline, and startup opportunities it creates.'' @ nl
     @ ''Focus on trends that create opportunities for new entrants.'' @ nl"

definition aiPrompt :: "'x Industry_scheme \<Rightarrow> string" where
  "aiPrompt ind =
     nl @ ''Assess the AI readiness and opportunity in the '' @ name ind @ '' industry.'' @ nl
     @ nl
     @ industryContext ind @ nl
     @ nl
     @ ''Evaluate data availability, process standardization, current AI adoption, and the most promising AI use cases.'' @ nl
     @ ''Be specific about where AI can create the most value.'' @ nl"

definition marketSizePrompt :: "'x Industry_scheme \<Rightarrow> string" where
  "marketSizePrompt ind =
     nl @ ''Estimate the market size for the '' @ name ind @ '' industry.'' @ nl
     @ nl
     @ industryContext ind @ nl
     @ nl
     @ ''Provide TAM (total addressable market), SAM (serviceable addressable market for a typical startup), and growth rate.'' @ nl
     @ ''Base estimates on publicly available data and industry reports.'' @ nl"

subsection \<open>Helper functions\<close>

text \<open>\<^verbatim>\<open>[...new Set(xs)]\<close>: the first occurrence of every element, in order.\<close>

definition uniq :: "'a list \<Rightarrow> 'a list" where
  "uniq xs = foldl (\<lambda>acc x. if x \<in> set acc then acc else acc @ [x]) [] xs"

definition extractPainPoints :: "'x BusinessModelCanvas_scheme \<Rightarrow> string list" where
  "extractPainPoints canvas =
     uniq (case valuePropositions canvas of
             None \<Rightarrow> []
           | Some vps \<Rightarrow>
               foldl (\<lambda>painPoints vp. case pains vp of None \<Rightarrow> painPoints | Some ps \<Rightarrow> painPoints @ ps)
                 [] vps)"

definition heavilyRegulated :: "'x BusinessType_scheme \<Rightarrow> bool" where
  "heavilyRegulated bt =
     (case marketDynamics bt of
        None \<Rightarrow> False
      | Some md \<Rightarrow> regulation md = ''heavy'' \<or> regulation md = ''moderate'')"

definition extractRegulations :: "'x BusinessType_scheme list \<Rightarrow> string list" where
  "extractRegulations bts =
     map (\<lambda>bt. nameB bt @ '': Significant regulatory requirements'') (filter heavilyRegulated bts)"

definition determineTechAdoption :: "AIReadiness option \<Rightarrow> TechAdoption" where
  "determineTechAdoption ar =
     (case ar of
        None \<Rightarrow> EarlyMajority
      | Some r \<Rightarrow>
          if aiAdoption r = ''embedded'' \<or> aiAdoption r = ''scaling'' then Innovator
          else if aiAdoption r = ''piloting'' then EarlyMajority
          else if aiAdoption r = ''experimenting'' then LateMajority
          else Laggard)"

subsection \<open>enrichIndustry\<close>

text \<open>The two literals behind \<^verbatim>\<open>||\<close> in the result object.\<close>

definition notAnalyzed :: CompetitiveLandscape where
  "notAnalyzed =
     \<lparr>marketLeaders = [], emergingPlayers = [], disruptors = [],
      consolidationTrends = ''Not analyzed''\<rparr>"

definition defaultAIReadiness :: AIReadiness where
  "defaultAIReadiness =
     \<lparr>dataAvailability = ''moderate'', processStandardization = ''defined'',
      aiAdoption = ''experimenting'', topAIUseCases = []\<rparr>"

text \<open>
  An \<^verbatim>\<open>await\<close> on a call that rejects throws, and the exception leaves the function: the
  result is the error (\<open>Inl\<close>). The optional calls leave their variable \<^verbatim>\<open>undefined\<close>
  (\<open>None\<close>) when the option is off. A missing option takes its default
  (\<^verbatim>\<open>depth = 'standard'\<close>, the three flags \<^verbatim>\<open>true\<close>).
\<close>

definition enrichIndustry ::
  "'e IndustryAI \<Rightarrow> 'x Industry_scheme \<Rightarrow> EnrichIndustryOptions \<Rightarrow> 'e + EnrichedIndustry" where
  "enrichIndustry ai ind options =
     (let d = (case depth options of None \<Rightarrow> Standard | Some v \<Rightarrow> v);
          withCompetitors = (case includeCompetitors options of None \<Rightarrow> True | Some v \<Rightarrow> v);
          withTrends = (case includeTrends options of None \<Rightarrow> True | Some v \<Rightarrow> v);
          withAIAnalysis = (case includeAIAnalysis options of None \<Rightarrow> True | Some v \<Rightarrow> v)
      in
      case businessTypesAI ai (businessTypesPrompt ind d) of
        Inl e \<Rightarrow> Inl e
      | Inr businessTypesArray \<Rightarrow>
      case businessModelCanvasAI ai (canvasPrompt ind) of
        Inl e \<Rightarrow> Inl e
      | Inr canvas \<Rightarrow>
      case (if withCompetitors
            then (case competitiveLandscapeAI ai (competitorsPrompt ind) of
                    Inl e \<Rightarrow> Inl e | Inr cl \<Rightarrow> Inr (Some cl))
            else Inr None) of
        Inl e \<Rightarrow> Inl e
      | Inr landscape \<Rightarrow>
      case (if withTrends then industryTrendsAI ai (trendsPrompt ind d) else Inr []) of
        Inl e \<Rightarrow> Inl e
      | Inr trendList \<Rightarrow>
      case (if withAIAnalysis
            then (case aiReadinessAI ai (aiPrompt ind) of
                    Inl e \<Rightarrow> Inl e | Inr ar \<Rightarrow> Inr (Some ar))
            else Inr None) of
        Inl e \<Rightarrow> Inl e
      | Inr readiness \<Rightarrow>
      case marketSizeAI ai (marketSizePrompt ind) of
        Inl e \<Rightarrow> Inl e
      | Inr sizing \<Rightarrow>
          Inr \<lparr>industryId = idE ind,
               businessTypes = businessTypesArray,
               businessModelCanvas = canvas,
               competitiveLandscape = (case landscape of Some cl \<Rightarrow> cl | None \<Rightarrow> notAnalyzed),
               trends = trendList,
               painPoints = extractPainPoints canvas,
               regulations = extractRegulations businessTypesArray,
               technologyAdoption = determineTechAdoption readiness,
               marketSize = sizing,
               aiReadiness = (case readiness of Some ar \<Rightarrow> ar | None \<Rightarrow> defaultAIReadiness)\<rparr>)"






section \<open>Concept scoring and idea generation (ai/generate-startup.ts)\<close>

subsection \<open>Shapes (startup.ts)\<close>

record ViabilityDimension =
  dimension :: string
  score :: real
  weight :: real
  rationale :: string
  signals :: "string list"

text \<open>The eight dimensions; \<^verbatim>\<open>marketSize\<close> is written \<open>marketSizeD\<close>.\<close>

record ViabilityDimensions =
  marketSizeD :: ViabilityDimension
  problemSeverity :: ViabilityDimension
  solutionFit :: ViabilityDimension
  competition :: ViabilityDimension
  gtmEase :: ViabilityDimension
  monetization :: ViabilityDimension
  defensibility :: ViabilityDimension
  timing :: ViabilityDimension

datatype Tier = TierS | TierA | TierB | TierC | TierD

datatype Recommendation = PursueAggressively | TestHypothesis | ExploreFurther | Deprioritize | Skip

text \<open>\<^verbatim>\<open>ViabilityScore\<close>; its field \<^verbatim>\<open>dimensions\<close> is written \<open>dimensionsV\<close>.\<close>

record ViabilityScore =
  overall :: real
  dimensionsV :: ViabilityDimensions
  tier :: Tier
  recommendation :: Recommendation

record StartupName =
  nameS :: string
  tagline :: string
  domain :: string

record OntologyTarget =
  occupationId :: "string option"
  occupationName :: "string option"
  industryIdT :: "string option"
  industryName :: "string option"
  processId :: "string option"
  processName :: "string option"

record BusinessModel =
  typeB :: string
  targetCustomer :: string
  moat :: string

text \<open>\<^verbatim>\<open>Partial<StartupConcept>\<close>: every property may be missing.\<close>

record StartupConcept =
  hypothesisId :: "string option"
  ontologyTarget :: "OntologyTarget option"
  nameC :: "StartupName option"
  oneLiner :: "string option"
  pitch :: "string option"
  serviceType :: "string option"
  businessModelC :: "BusinessModel option"
  viability :: "ViabilityScore option"

record AIOpportunity =
  totalAutomationPotential :: string
  aiReadinessO :: string

record EnrichedOccupation =
  occupationIdO :: string
  topProblemIds :: "string list"
  topPainPointIds :: "string list"
  budgetAuthority :: string
  decisionRole :: string
  aiOpportunity :: AIOpportunity

subsection \<open>scoreStartupConcept\<close>

text \<open>A missing value inside a template literal prints as \<^verbatim>\<open>undefined\<close>.\<close>

definition showOpt :: "string option \<Rightarrow> string" where
  "showOpt x = (case x of None \<Rightarrow> ''undefined'' | Some s \<Rightarrow> s)"

text \<open>\<^verbatim>\<open>x || dflt\<close> on a string that may be missing.\<close>

definition orElse :: "string option \<Rightarrow> string \<Rightarrow> string" where
  "orElse x dflt = (case x of None \<Rightarrow> dflt | Some s \<Rightarrow> if s = [] then dflt else s)"

definition scorePrompt :: "StartupConcept \<Rightarrow> EnrichedIndustry option \<Rightarrow> EnrichedOccupation option \<Rightarrow> string" where
  "scorePrompt concept enrichedIndustry enrichedOccupation =
     nl @ ''Score the viability of this startup concept:'' @ nl
     @ nl
     @ ''Name: '' @ orElse (map_option nameS (nameC concept)) ''Unnamed'' @ nl
     @ showOpt (oneLiner concept) @ nl
     @ showOpt (pitch concept) @ nl
     @ nl
     @ ''Target Occupation: ''
       @ orElse (Option.bind (ontologyTarget concept) occupationName) ''General'' @ nl
     @ ''Target Industry: ''
       @ orElse (Option.bind (ontologyTarget concept) industryName) ''Various'' @ nl
     @ ''Business Model: '' @ showOpt (map_option typeB (businessModelC concept)) @ nl
     @ ''Service Type: '' @ showOpt (serviceType concept) @ nl
     @ nl
     @ (case enrichedIndustry of
          None \<Rightarrow> []
        | Some ei \<Rightarrow>
            nl @ ''Industry Intelligence:'' @ nl
            @ ''- Market Size: '' @ tam (marketSize ei) @ nl
            @ ''- Growth: '' @ growth (marketSize ei) @ nl
            @ ''- AI Readiness: '' @ aiAdoption (aiReadiness ei) @ nl
            @ ''- Top Trends: '' @ join '', '' (map trend (take 3 (trends ei))) @ nl) @ nl
     @ nl
     @ (case enrichedOccupation of
          None \<Rightarrow> []
        | Some eo \<Rightarrow>
            nl @ ''Occupation Intelligence:'' @ nl
            @ ''- Budget Authority: '' @ budgetAuthority eo @ nl
            @ ''- Decision Role: '' @ decisionRole eo @ nl
            @ ''- AI Readiness: '' @ aiReadinessO (aiOpportunity eo) @ nl
            @ ''- Top Problems: '' @ join '', '' (take 3 (topProblemIds eo)) @ nl) @ nl
     @ nl
     @ ''Score across all 8 dimensions with specific rationale and signals.'' @ nl"

text \<open>
  \<^verbatim>\<open>const result = await startupAI.viabilityScore(prompt); return result as unknown as ViabilityScore\<close>:
  the score object is the collaborator's answer, passed on as it is.
\<close>

definition scoreStartupConcept ::
  "(string \<Rightarrow> 'e + ViabilityScore) \<Rightarrow> StartupConcept \<Rightarrow> EnrichedIndustry option
     \<Rightarrow> EnrichedOccupation option \<Rightarrow> 'e + ViabilityScore" where
  "scoreStartupConcept viabilityScoreAI concept enrichedIndustry enrichedOccupation =
     (case viabilityScoreAI (scorePrompt concept enrichedIndustry enrichedOccupation) of
        Inl e \<Rightarrow> Inl e
      | Inr result \<Rightarrow> Inr result)"

subsection \<open>The rules of the specification, for comparison\<close>

text \<open>Section 4.4: overall at least 90 is S, at least 75 is A, at least 60 is B, at least
  40 is C, anything lower is D.\<close>

definition specTier :: "real \<Rightarrow> Tier" where
  "specTier x =
     (if 90 \<le> x then TierS else if 75 \<le> x then TierA else if 60 \<le> x then TierB
      else if 40 \<le> x then TierC else TierD)"

fun specRecommendation :: "Tier \<Rightarrow> Recommendation" where
  "specRecommendation TierS = PursueAggressively"
| "specRecommendation TierA = TestHypothesis"
| "specRecommendation TierB = ExploreFurther"
| "specRecommendation TierC = Deprioritize"
| "specRecommendation TierD = Skip"

text \<open>Section 4.4: the weighted sum of the sub-scores divided by the sum of the weights,
  rounded to the nearest whole number.\<close>

definition specAggregate :: "ViabilityDimension list \<Rightarrow> int" where
  "specAggregate ds = round ((\<Sum>d\<leftarrow>ds. score d * weight d) / (\<Sum>d\<leftarrow>ds. weight d))"

definition dimensionList :: "ViabilityDimensions \<Rightarrow> ViabilityDimension list" where
  "dimensionList ds =
     [marketSizeD ds, problemSeverity ds, solutionFit ds, competition ds, gtmEase ds,
      monetization ds, defensibility ds, timing ds]"

subsection \<open>A collaborator whose answer does not follow the rules\<close>

definition flatDimension :: "string \<Rightarrow> ViabilityDimension" where
  "flatDimension d = \<lparr>dimension = d, score = 50, weight = 1, rationale = ''n/a'', signals = []\<rparr>"

definition inconsistentScore :: ViabilityScore where
  "inconsistentScore =
     \<lparr>overall = 95,
      dimensionsV =
        \<lparr>marketSizeD = flatDimension ''Market Size'',
         problemSeverity = flatDimension ''Problem Severity'',
         solutionFit = flatDimension ''Solution Fit'',
         competition = flatDimension ''Competition'',
         gtmEase = flatDimension ''GTM Ease'',
         monetization = flatDimension ''Monetization'',
         defensibility = flatDimension ''Defensibility'',
         timing = flatDimension ''Timing''\<rparr>,
      tier = TierD,
      recommendation = PursueAggressively\<rparr>"

definition sampleConcept :: StartupConcept where
  "sampleConcept =
     \<lparr>hypothesisId = Some ''headless-saas-for-agents'',
      ontologyTarget = None,
      nameC = Some \<lparr>nameS = ''LedgerBot'', tagline = ''Books that close themselves'',
                     domain = ''ledgerbot.ai''\<rparr>,
      oneLiner = Some ''Autonomous bookkeeping for agencies'',
      pitch = None,
      serviceType = Some ''full-automation'',
      businessModelC = None,
      viability = None\<rparr>"

subsection \<open>generateStartupIdeas\<close>

record Idea =
  title :: string
  oneLinerI :: string
  targetOccupation :: "string option"
  targetIndustry :: "string option"
  targetProcess :: "string option"
  serviceTypeI :: string
  uniqueAngle :: string
  estimatedViability :: string

text \<open>The answer of \<^verbatim>\<open>startupAI.startupIdeas\<close>; the code allows for a missing \<^verbatim>\<open>ideas\<close>.\<close>

record StartupIdeasResult =
  ideas :: "Idea list option"

text \<open>\<^verbatim>\<open>GenerateIdeasInput\<close>; the fields carry the suffix \<open>I\<close>.\<close>

record GenerateIdeasInput =
  hypothesisI :: Hypothesis
  occupationsI :: "Occupation list option"
  industriesI :: "Industry list option"
  processesI :: "Process list option"
  countI :: "int option"

definition dimensionLine :: "string \<Rightarrow> string list \<Rightarrow> string" where
  "dimensionLine label names =
     (if length names > 0 then label @ '': '' @ join '', '' (take 20 names) else [])"

definition ideasPrompt :: "GenerateIdeasInput \<Rightarrow> string" where
  "ideasPrompt input =
     (let occs = (case occupationsI input of None \<Rightarrow> [] | Some xs \<Rightarrow> xs);
          inds = (case industriesI input of None \<Rightarrow> [] | Some xs \<Rightarrow> xs);
          procs = (case processesI input of None \<Rightarrow> [] | Some xs \<Rightarrow> xs);
          n = (case countI input of None \<Rightarrow> 10 | Some k \<Rightarrow> k)
      in
      nl @ ''Generate '' @ showInt n @ '' unique startup ideas based on this hypothesis:'' @ nl
      @ nl
      @ ''Hypothesis: '' @ hypName (hypothesisI input) @ nl
      @ thesis (hypothesisI input) @ nl
      @ nl
      @ ''Available dimensions to combine:'' @ nl
      @ dimensionLine ''Occupations'' (map name occs) @ nl
      @ dimensionLine ''Industries'' (map name inds) @ nl
      @ dimensionLine ''Processes'' (map name procs) @ nl
      @ nl
      @ ''Generate diverse ideas that:'' @ nl
      @ ''1. Target different combinations of occupation '' @ [CHR 0xD7] @ '' industry ''
        @ [CHR 0xD7] @ '' process'' @ nl
      @ ''2. Use different AI service types (full-automation, augmentation, overlay, platform, api)'' @ nl
      @ ''3. Have different unique angles'' @ nl
      @ ''4. Range from safe bets to moonshots'' @ nl
      @ nl
      @ ''Each idea should be distinct and viable.'' @ nl)"

text \<open>\<^verbatim>\<open>const result = await startupAI.startupIdeas(prompt); return result.ideas || []\<close>\<close>

definition generateStartupIdeas ::
  "(string \<Rightarrow> 'e + StartupIdeasResult) \<Rightarrow> GenerateIdeasInput \<Rightarrow> 'e + Idea list" where
  "generateStartupIdeas startupIdeasAI input =
     (case startupIdeasAI (ideasPrompt input) of
        Inl e \<Rightarrow> Inl e
      | Inr result \<Rightarrow> Inr (case ideas result of None \<Rightarrow> [] | Some xs \<Rightarrow> xs))"

text \<open>The sample hypothesis with the occupation dimension required, and no occupation
  left after filtering.\<close>

definition occupationRequired :: Hypothesis where
  "occupationRequired =
     sampleHypothesis\<lparr>constraints :=
       \<lparr>minScore = 60, maxStartups = None, requireIndustry = False, requireOccupation = True\<rparr>\<rparr>"

definition noOccupations :: GenerateIdeasInput where
  "noOccupations =
     \<lparr>hypothesisI = occupationRequired, occupationsI = Some [], industriesI = Some [sampleIndustry],
      processesI = None, countI = Some 3\<rparr>"

definition oneIdea :: Idea where
  "oneIdea =
     \<lparr>title = ''LedgerBot'', oneLinerI = ''Autonomous bookkeeping'', targetOccupation = None,
      targetIndustry = Some ''Professional Services'', targetProcess = None,
      serviceTypeI = ''full-automation'', uniqueAngle = ''Agent-first'',
      estimatedViability = ''high''\<rparr>"

section \<open>Workflow records (workflow.ts)\<close>

text \<open>
  \<^verbatim>\<open>z.enum([...])\<close> accepts exactly the listed strings. The two status enums of the
  orchestrator section:
\<close>

datatype zodError = InvalidEnumValue string

definition zEnumParse :: "string list \<Rightarrow> string \<Rightarrow> zodError + string" where
  "zEnumParse allowed s = (if s \<in> set allowed then Inr s else Inl (InvalidEnumValue s))"

definition PipelineStepStatus :: "string list" where
  "PipelineStepStatus = [''pending'', ''running'', ''completed'', ''failed'', ''skipped'']"

definition WorkflowExecutionStatus :: "string list" where
  "WorkflowExecutionStatus = [''pending'', ''running'', ''completed'', ''failed'', ''paused'']"

section \<open>Filter engine (specification, section 4.1)\<close>

text \<open>
  The repository declares the filter of a dimension (\<^verbatim>\<open>OntologyDimensionConfig.filter\<close>,
  the record \<open>DimensionFilter\<close> above) and has no function that applies it. The function
  is taken from the specification.
\<close>

text \<open>Modelled from the spec: \<^verbatim>\<open>DimensionEntity\<close> of section 3 (id, display name, hierarchy
  level, description); the repository has no type of that name.\<close>

record DimensionEntity =
  idD :: string
  nameD :: string
  levelD :: int
  descriptionD :: string

text \<open>Modelled from the spec: the name match of step (4), which the repository does not
  implement; of the two documented choices the case-insensitive substring is taken.\<close>

fun startsWith :: "string \<Rightarrow> string \<Rightarrow> bool" where
  "startsWith s [] = True"
| "startsWith [] (p # ps) = False"
| "startsWith (c # cs) (p # ps) = (c = p \<and> startsWith cs ps)"

text \<open>Modelled from the spec: the substring test behind the name match of step (4),
  missing from the repository.\<close>

fun includesStr :: "string \<Rightarrow> string \<Rightarrow> bool" where
  "includesStr [] needle = (needle = [])"
| "includesStr (c # cs) needle = (startsWith (c # cs) needle \<or> includesStr cs needle)"

text \<open>Modelled from the spec: the case-insensitive name match of step (4), missing from
  the repository.\<close>

definition matchesName :: "string \<Rightarrow> string \<Rightarrow> bool" where
  "matchesName pattern nm = includesStr (toLowerCase nm) (toLowerCase pattern)"

text \<open>Modelled from the spec: \<^verbatim>\<open>apply(entities, filter)\<close> of section 4.1, missing from the
  repository. The five steps in their order: allow-list, deny-list, level set, name
  pattern, cap.\<close>

definition applyFilter :: "DimensionEntity list \<Rightarrow> DimensionFilter \<Rightarrow> DimensionEntity list" where
  "applyFilter entities f =
     (let allowed = (case ids f of None \<Rightarrow> entities
                     | Some allow \<Rightarrow> filter (\<lambda>e. idD e \<in> set allow) entities);
          notDenied = (case excludeIds f of None \<Rightarrow> allowed
                       | Some deny \<Rightarrow> filter (\<lambda>e. idD e \<notin> set deny) allowed);
          atLevel = (case levels f of None \<Rightarrow> notDenied
                     | Some ls \<Rightarrow> filter (\<lambda>e. levelD e \<in> set ls) notDenied);
          named = (case namePattern f of None \<Rightarrow> atLevel
                   | Some pattern \<Rightarrow> filter (\<lambda>e. matchesName pattern (nameD e)) atLevel)
      in case limit f of None \<Rightarrow> named | Some cap \<Rightarrow> take cap named)"

text \<open>A filter that holds a cap and nothing else.\<close>

definition capOnly :: "nat \<Rightarrow> DimensionFilter" where
  "capOnly n = \<lparr>ids = None, excludeIds = None, levels = None, namePattern = None, limit = Some n\<rparr>"

definition threeEntities :: "DimensionEntity list" where
  "threeEntities =
     [\<lparr>idD = ''Retail'', nameD = ''Retail Trade'', levelD = 1, descriptionD = []\<rparr>,
      \<lparr>idD = ''Finance'', nameD = ''Finance and Insurance'', levelD = 1, descriptionD = []\<rparr>,
      \<lparr>idD = ''Banking'', nameD = ''Commercial Banking'', levelD = 3, descriptionD = []\<rparr>]"

section \<open>Pipeline orchestrator (specification, section 4.7)\<close>

text \<open>
  The repository declares the step record (\<^verbatim>\<open>PipelineStep\<close>), the execution record and the
  signature of \<^verbatim>\<open>executeWorkflow\<close> (a \<^verbatim>\<open>z.function()\<close> with arguments and result type);
  no function body exists. The step record follows the declaration; the state machine is
  taken from the specification.
\<close>

datatype StepStatus = Pending | Running | Completed | Failed | Skipped

text \<open>\<^verbatim>\<open>PipelineStep\<close> of workflow.ts; the fields carry the suffix \<open>P\<close>.\<close>

record PipelineStep =
  idP :: string
  nameP :: string
  phaseP :: string
  functionP :: string
  inputP :: string
  dependsOnP :: "string list option"
  outputP :: "string option"
  statusP :: StepStatus
  errorP :: "string option"

definition depsOf :: "PipelineStep \<Rightarrow> string list" where
  "depsOf s = (case dependsOnP s of None \<Rightarrow> [] | Some ds \<Rightarrow> ds)"

text \<open>Modelled from the spec: the status of the step that a dependency id names (the first
  step with that id); the repository has no lookup.\<close>

definition statusOf :: "PipelineStep list \<Rightarrow> string \<Rightarrow> StepStatus option" where
  "statusOf steps i = map_option statusP (find (\<lambda>s. idP s = i) steps)"

text \<open>Modelled from the spec: the transition rule of section 4.7, missing from the
  repository. A step is eligible when every dependency is completed; it is blocked when
  some dependency is failed or skipped.\<close>

definition eligible :: "PipelineStep list \<Rightarrow> PipelineStep \<Rightarrow> bool" where
  "eligible steps s = (\<forall>d\<in>set (depsOf s). statusOf steps d = Some Completed)"

text \<open>Modelled from the spec: a step with a failed or skipped dependency (section 4.7),
  missing from the repository.\<close>

definition blocked :: "PipelineStep list \<Rightarrow> PipelineStep \<Rightarrow> bool" where
  "blocked steps s =
     (\<exists>d\<in>set (depsOf s). statusOf steps d = Some Failed \<or> statusOf steps d = Some Skipped)"

text \<open>Modelled from the spec: launching a step and recording its outcome
  (\<open>running \<rightarrow> completed\<close> on success, \<open>running \<rightarrow> failed\<close> on error, capturing the error);
  missing from the repository. The operation a step names is the argument \<open>invoke\<close>, from
  the function name and the input to an error or an output.\<close>

definition launch :: "PipelineStep \<Rightarrow> PipelineStep" where
  "launch s = s\<lparr>statusP := Running\<rparr>"

text \<open>Modelled from the spec: the end of a launched step (section 4.7), missing from the
  repository.\<close>

definition finish :: "(string \<Rightarrow> string \<Rightarrow> string + string) \<Rightarrow> PipelineStep \<Rightarrow> PipelineStep" where
  "finish invoke s =
     (case invoke (functionP s) (inputP s) of
        Inl err \<Rightarrow> s\<lparr>statusP := Failed, errorP := Some err\<rparr>
      | Inr out \<Rightarrow> s\<lparr>statusP := Completed, outputP := Some out\<rparr>)"

text \<open>Modelled from the spec: what one look at a step does; missing from the repository.
  A pending step with a failed or skipped dependency goes directly to skipped; an eligible
  pending step is launched and finished; any other step is left as it is.\<close>

definition transition ::
  "(string \<Rightarrow> string \<Rightarrow> string + string) \<Rightarrow> PipelineStep list \<Rightarrow> PipelineStep \<Rightarrow> PipelineStep" where
  "transition invoke steps s =
     (if statusP s \<noteq> Pending then s
      else if blocked steps s then s\<lparr>statusP := Skipped\<rparr>
      else if eligible steps s then finish invoke (launch s)
      else s)"

text \<open>Modelled from the spec: one scan over the steps, in their order, each step seeing the
  statuses left by the steps before it; missing from the repository.\<close>

definition look ::
  "(string \<Rightarrow> string \<Rightarrow> string + string) \<Rightarrow> PipelineStep list \<Rightarrow> nat \<Rightarrow> PipelineStep list" where
  "look invoke steps i = steps[i := transition invoke steps (steps ! i)]"

text \<open>Modelled from the spec: the scan over all steps (section 4.7), missing from the
  repository.\<close>

definition scan :: "(string \<Rightarrow> string \<Rightarrow> string + string) \<Rightarrow> PipelineStep list \<Rightarrow> PipelineStep list" where
  "scan invoke steps = foldl (look invoke) steps [0..<length steps]"

text \<open>Modelled from the spec: a run, missing from the repository (\<^verbatim>\<open>executeWorkflow\<close> is a
  signature only). Every step starts pending; the orchestrator scans repeatedly. Every
  scan that changes anything settles at least one pending step, so as many scans as there
  are steps reach the state that no further scan changes.\<close>

text \<open>Modelled from the spec: the entry state of a run, every step pending (section 4.7),
  missing from the repository.\<close>

definition createRun :: "PipelineStep list \<Rightarrow> PipelineStep list" where
  "createRun steps = map (\<lambda>s. s\<lparr>statusP := Pending\<rparr>) steps"

text \<open>Modelled from the spec: the repeated scanning of section 4.7, missing from the
  repository.\<close>

definition runSteps :: "(string \<Rightarrow> string \<Rightarrow> string + string) \<Rightarrow> PipelineStep list \<Rightarrow> PipelineStep list" where
  "runSteps invoke steps = (scan invoke ^^ length steps) (createRun steps)"

text \<open>The number of pending steps.\<close>

definition pendingCount :: "PipelineStep list \<Rightarrow> nat" where
  "pendingCount steps = length (filter (\<lambda>s. statusP s = Pending) steps)"

text \<open>The diamond of the specification's third scenario (A, then B and C, then D), and a
  step E of its own. The operation \<^verbatim>\<open>enrich\<close> fails, every other operation succeeds.\<close>

definition stepNamed :: "string \<Rightarrow> string \<Rightarrow> string list \<Rightarrow> PipelineStep" where
  "stepNamed i f deps =
     \<lparr>idP = i, nameP = i, phaseP = ''generation'', functionP = f, inputP = [],
      dependsOnP = (if deps = [] then None else Some deps), outputP = None,
      statusP = Pending, errorP = None\<rparr>"

definition diamond :: "PipelineStep list" where
  "diamond =
     [stepNamed ''D'' ''rank'' [''B'', ''C''],
      stepNamed ''B'' ''generate'' [''A''],
      stepNamed ''A'' ''enrich'' [],
      stepNamed ''C'' ''score'' [''A''],
      stepNamed ''E'' ''brand'' []]"

definition enrichFails :: "string \<Rightarrow> string \<Rightarrow> string + string" where
  "enrichFails f input = (if f = ''enrich'' then Inl ''enrichment failed'' else Inr (f @ '' done''))"

text \<open>The statuses of a run are consistent when every settled step has the history its
  status tells: a skipped step has a failed or skipped dependency; a completed or failed
  step had all its dependencies completed and its operation ended accordingly; no step is
  left running.\<close>

definition consistent :: "(string \<Rightarrow> string \<Rightarrow> string + string) \<Rightarrow> PipelineStep list \<Rightarrow> bool" where
  "consistent invoke steps =
     (\<forall>s\<in>set steps.
        (statusP s = Skipped \<longrightarrow> blocked steps s)
      \<and> (statusP s = Completed \<longrightarrow>
            eligible steps s \<and> (\<exists>out. invoke (functionP s) (inputP s) = Inr out))
      \<and> (statusP s = Failed \<longrightarrow>
            eligible steps s \<and> (\<exists>err. invoke (functionP s) (inputP s) = Inl err))
      \<and> statusP s \<noteq> Running)"

section \<open>Properties of concept identifiers\<close>

lemma toString36_small: "n < 36 \<Longrightarrow> toString36 n = [digit36 n]"
  by (subst toString36.simps) simp

lemma toString36_large:
  "\<not> n < 36 \<Longrightarrow> toString36 n = toString36 (n div 36) @ [digit36 (n mod 36)]"
  by (subst toString36.simps) simp

lemma toString36_nonempty: "toString36 n \<noteq> []"
  by (subst toString36.simps) simp

lemma digit36_inj: 
  assumes "a < 36" "b < 36" "digit36 a = digit36 b" shows "a = b"
proof -
  have d: "distinct ''0123456789abcdefghijklmnopqrstuvwxyz''" by simp
  have l: "length ''0123456789abcdefghijklmnopqrstuvwxyz'' = 36" by simp
  from assms show ?thesis unfolding digit36_def
    using nth_eq_iff_index_eq[OF d, of a b] l by simp
qed

lemma digit36_idChar:
  assumes "d < 36" shows "idChar (digit36 d) \<and> toLowerChar (digit36 d) = digit36 d"
proof -
  have "\<forall>c \<in> set ''0123456789abcdefghijklmnopqrstuvwxyz''. idChar c \<and> toLowerChar c = c"
    by (simp add: idChar_def toLowerChar_def)
  moreover have "digit36 d \<in> set ''0123456789abcdefghijklmnopqrstuvwxyz''"
    unfolding digit36_def using assms by (intro nth_mem) simp
  ultimately show ?thesis by blast
qed

lemma toString36_inj: "toString36 a = toString36 b \<Longrightarrow> a = b"
proof (induction a arbitrary: b rule: toString36.induct)
  case (1 n)
  show ?case
  proof (cases "n < 36")
    case True
    note nsmall = this
    show ?thesis
    proof (cases "b < 36")
      case True
      with nsmall 1(2) have "digit36 n = digit36 b" by (simp add: toString36_small)
      then show ?thesis using digit36_inj nsmall True by blast
    next
      case False
      with nsmall 1(2) have "toString36 (b div 36) = []"
        by (simp add: toString36_small toString36_large)
      then show ?thesis using toString36_nonempty by blast
    qed
  next
    case False
    note nlarge = this
    show ?thesis
    proof (cases "b < 36")
      case True
      with nlarge 1(2) have "toString36 (n div 36) = []"
        by (simp add: toString36_small toString36_large)
      then show ?thesis using toString36_nonempty by blast
    next
      case False
      with nlarge 1(2) have e: "toString36 (n div 36) = toString36 (b div 36)"
        "digit36 (n mod 36) = digit36 (b mod 36)"
        by (simp_all add: toString36_large)
      from 1(1)[OF nlarge e(1)] have "n div 36 = b div 36" .
      moreover from e(2) have "n mod 36 = b mod 36"
        using digit36_inj[of "n mod 36" "b mod 36"] by simp
      ultimately show ?thesis by (metis div_mult_mod_eq)
    qed
  qed
qed

lemma toString36_clean:
  "filter idChar (toLowerCase (toString36 n)) = toString36 n"
proof (induction n rule: toString36.induct)
  case (1 n)
  show ?case
  proof (cases "n < 36")
    case True
    then show ?thesis using digit36_idChar[of n]
      by (simp add: toString36_small toLowerCase_def)
  next
    case False
    then show ?thesis using 1 digit36_idChar[of "n mod 36"]
      by (simp add: toString36_large toLowerCase_def)
  qed
qed

lemma generateConceptId_shape:
  "generateConceptId now input =
     filter idChar (toLowerCase (hypId (hypothesis input) @ ''-''
        @ idOrGen (map_option idE (occupation input)) @ ''-''
        @ idOrGen (map_option idE (industry input)) @ ''-''
        @ idOrGen (map_option idE (process input)) @ ''-''))
     @ toString36 now"
proof -
  have "filter idChar (toLowerCase (xs @ toString36 now))
        = filter idChar (toLowerCase xs) @ toString36 now" for xs
    using toString36_clean[of now] by (simp add: toLowerCase_def)
  from this[of "hypId (hypothesis input) @ ''-''
        @ idOrGen (map_option idE (occupation input)) @ ''-''
        @ idOrGen (map_option idE (industry input)) @ ''-''
        @ idOrGen (map_option idE (process input)) @ ''-''"]
  show ?thesis by (simp add: generateConceptId_def)
qed

text \<open>
  On the sample input the identifier is the lower-cased, filtered concatenation of the
  four ids followed by the clock reading in base 36.
\<close>

lemma generateConceptId_sample:
  "generateConceptId now sampleConceptInput
     = ''headless-saas-for-agents-chieffinancialofficercfo-professionalscientificandtechnicalservices-gen-''
       @ toString36 now"
  apply (simp only: generateConceptId_shape)
  apply (simp add: sampleConceptInput_def sampleHypothesis_def sampleOccupation_def
      sampleIndustry_def idOrGen_def)
  apply (simp add: toLowerCase_def toLowerChar_def idChar_def)
  done

text \<open>
  C5 (as stated): two calls of \<^verbatim>\<open>generateConceptId\<close> with the same hypothesis id and the
  same occupation, industry and process ids return equal ids. The code appends
  \<^verbatim>\<open>Date.now().toString(36)\<close>, so the same input at two clock readings one millisecond
  apart gives two different ids.
\<close>

theorem generateConceptId_not_repeatable:
  "generateConceptId 1730000000000 sampleConceptInput
     \<noteq> generateConceptId 1730000000001 sampleConceptInput"
  by (simp add: generateConceptId_shape toString36.simps digit36_def)

text \<open>
  C5 (amended): the concept id is a function of the hypothesis id, the occupation, industry
  and process ids and the clock reading taken at the call. For two inputs that agree on the
  four ids, the returned ids are equal exactly when the two clock readings are equal.
\<close>

theorem generateConceptId_equal_iff_same_clock:
  assumes "hypId (hypothesis a) = hypId (hypothesis b)"
    and "map_option idE (occupation a) = map_option idE (occupation b)"
    and "map_option idE (industry a) = map_option idE (industry b)"
    and "map_option idE (process a) = map_option idE (process b)"
  shows "generateConceptId n a = generateConceptId m b \<longleftrightarrow> n = m"
  using assms toString36_inj[of n m] by (auto simp: generateConceptId_shape)

theorem generateConceptId_equal_iff_same_clock_witness:
  "generateConceptId 1730000000000 sampleConceptInput
     = generateConceptId 1730000000000 sampleConceptInput2
   \<and> generateConceptId 1730000000000 sampleConceptInput
     \<noteq> generateConceptId 1730000000500 sampleConceptInput2"
  using generateConceptId_equal_iff_same_clock
          [of sampleConceptInput sampleConceptInput2 1730000000000 1730000000000]
        generateConceptId_equal_iff_same_clock
          [of sampleConceptInput sampleConceptInput2 1730000000000 1730000000500]
  by (simp add: sampleConceptInput_def sampleConceptInput2_def)

section \<open>Properties of batch enrichment\<close>

subsection \<open>One chunk\<close>

lemma succeeds_iff: "succeeds work x \<longleftrightarrow> (\<exists>r. work x = Inr r)"
  by (cases "work x") (auto simp: succeeds_def)

lemma not_succeeds_iff: "\<not> succeeds work x \<longleftrightarrow> (\<exists>e. work x = Inl e)"
  by (cases "work x") (auto simp: succeeds_def)

lemma settle_all_ok:
  "\<forall>x\<in>set xs. succeeds work x \<Longrightarrow> settleUntilReject work xs = (map Settled xs, None)"
  by (induction xs) (auto simp: succeeds_iff)

lemma settle_prefix:
  "\<exists>j\<le>length xs. fst (settleUntilReject work xs) = map Settled (take j xs)"
proof (induction xs)
  case Nil
  then show ?case by simp
next
  case (Cons x xs)
  then obtain j where j: "j \<le> length xs" "fst (settleUntilReject work xs) = map Settled (take j xs)"
    by blast
  obtain tr res where tr: "settleUntilReject work xs = (tr, res)"
    by (cases "settleUntilReject work xs")
  show ?case
  proof (cases "work x")
    case (Inl e)
    then have "fst (settleUntilReject work (x # xs)) = map Settled (take 1 (x # xs))" by simp
    then show ?thesis by (intro exI[of _ 1]) simp
  next
    case (Inr r)
    then have "fst (settleUntilReject work (x # xs)) = map Settled (take (Suc j) (x # xs))"
      using j(2) tr by simp
    then show ?thesis using j(1) by (intro exI[of _ "Suc j"]) simp
  qed
qed

lemma settle_Some:
  "snd (settleUntilReject work xs) = Some e \<Longrightarrow> \<exists>x\<in>set xs. work x = Inl e"
proof (induction xs)
  case Nil
  then show ?case by simp
next
  case (Cons x xs)
  obtain tr res where tr: "settleUntilReject work xs = (tr, res)"
    by (cases "settleUntilReject work xs")
  show ?case
  proof (cases "work x")
    case (Inl e')
    with Cons.prems show ?thesis by simp
  next
    case (Inr r)
    with Cons.prems tr have "snd (settleUntilReject work xs) = Some e" by simp
    with Cons.IH show ?thesis by auto
  qed
qed

lemma settle_fail:
  "\<exists>x\<in>set xs. \<not> succeeds work x \<Longrightarrow> \<exists>e. snd (settleUntilReject work xs) = Some e"
proof (induction xs)
  case Nil
  then show ?case by simp
next
  case (Cons x xs)
  obtain tr res where tr: "settleUntilReject work xs = (tr, res)"
    by (cases "settleUntilReject work xs")
  show ?case
  proof (cases "work x")
    case (Inl e')
    then show ?thesis by simp
  next
    case (Inr r)
    then have "succeeds work x" by (simp add: succeeds_def)
    with Cons.prems have "\<exists>x\<in>set xs. \<not> succeeds work x" by auto
    with Cons.IH obtain e where "snd (settleUntilReject work xs) = Some e" by blast
    with Inr tr show ?thesis by simp
  qed
qed

lemma collect_ok:
  "\<forall>x\<in>set xs. succeeds work x \<Longrightarrow> \<exists>rs. collect (map work xs) = Inr rs"
  by (induction xs) (auto simp: succeeds_iff)

lemma setAll_Cons:
  "setAll key m (x # xs) (r # rs) = setAll key (m(key x \<mapsto> r)) xs rs"
  by (simp add: setAll_def)

lemma setAll_collect:
  "collect (map work xs) = Inr rs \<Longrightarrow> setAll key m xs rs = foldl (record1 key work) m xs"
proof (induction xs arbitrary: m rs)
  case Nil
  then show ?case by (simp add: setAll_def)
next
  case (Cons x xs)
  from Cons.prems obtain r rs' where r: "work x = Inr r" "collect (map work xs) = Inr rs'" "rs = r # rs'"
    by (cases "work x"; cases "collect (map work xs)") auto
  have "setAll key m (x # xs) rs = setAll key (m(key x \<mapsto> r)) xs rs'"
    using r(3) by (simp only: setAll_Cons)
  also have "\<dots> = foldl (record1 key work) (m(key x \<mapsto> r)) xs"
    by (rule Cons.IH[OF r(2)])
  also have "m(key x \<mapsto> r) = record1 key work m x"
    using r(1) by (simp add: record1_def)
  finally show ?case by simp
qed

lemma started_append: "started (es @ fs) = started es @ started fs"
  by (induction es rule: started.induct) auto

lemma started_map_Started: "started (map Started xs) = xs"
  by (induction xs) auto

lemma started_map_Settled: "started (map Settled xs) = []"
  by (induction xs) auto

lemma promiseAllMap_fst:
  "fst (promiseAllMap latency work batch)
     = map Started batch @ fst (settleUntilReject work (sort_key latency batch))"
  by (cases "settleUntilReject work (sort_key latency batch)")
     (simp add: promiseAllMap_def split: option.splits)

lemma promiseAllMap_snd:
  "snd (promiseAllMap latency work batch)
     = (case snd (settleUntilReject work (sort_key latency batch)) of
          Some e \<Rightarrow> Inl e | None \<Rightarrow> collect (map work batch))"
  by (cases "settleUntilReject work (sort_key latency batch)")
     (simp add: promiseAllMap_def split: option.splits)

lemma promiseAllMap_shape:
  "\<exists>j\<le>length batch. fst (promiseAllMap latency work batch)
      = map Started batch @ map Settled (take j (sort_key latency batch))"
proof -
  obtain j where "j \<le> length (sort_key latency batch)"
    "fst (settleUntilReject work (sort_key latency batch)) = map Settled (take j (sort_key latency batch))"
    using settle_prefix by blast
  then show ?thesis
    by (intro exI[of _ j]) (simp add: promiseAllMap_fst)
qed

lemma started_promiseAllMap: "started (fst (promiseAllMap latency work batch)) = batch"
proof -
  obtain j where "fst (promiseAllMap latency work batch)
      = map Started batch @ map Settled (take j (sort_key latency batch))"
    using promiseAllMap_shape by blast
  then show ?thesis
    by (simp add: started_append started_map_Started started_map_Settled)
qed

lemma promiseAllMap_ok:
  assumes "\<forall>x\<in>set batch. succeeds work x"
  shows "\<exists>rs. promiseAllMap latency work batch
            = (map Started batch @ map Settled (sort_key latency batch), Inr rs)
          \<and> collect (map work batch) = Inr rs"
proof -
  from assms have "\<forall>x\<in>set (sort_key latency batch). succeeds work x" by simp
  then have s: "settleUntilReject work (sort_key latency batch) = (map Settled (sort_key latency batch), None)"
    by (rule settle_all_ok)
  obtain rs where rs: "collect (map work batch) = Inr rs" using collect_ok[OF assms] by blast
  have "fst (promiseAllMap latency work batch) = map Started batch @ map Settled (sort_key latency batch)"
    by (simp add: promiseAllMap_fst s)
  moreover have "snd (promiseAllMap latency work batch) = Inr rs"
    by (simp add: promiseAllMap_snd s rs)
  ultimately have "promiseAllMap latency work batch
      = (map Started batch @ map Settled (sort_key latency batch), Inr rs)"
    by (simp add: prod_eq_iff)
  with rs show ?thesis by blast
qed

lemma promiseAllMap_fail:
  assumes "\<exists>x\<in>set batch. \<not> succeeds work x"
  shows "\<exists>tr e. promiseAllMap latency work batch = (tr, Inl e) \<and> started tr = batch
          \<and> (\<exists>x\<in>set batch. work x = Inl e)"
proof -
  from assms have "\<exists>x\<in>set (sort_key latency batch). \<not> succeeds work x"
    by (simp only: set_sort)
  from settle_fail[OF this]
  obtain e where e: "snd (settleUntilReject work (sort_key latency batch)) = Some e" ..
  have x: "\<exists>x\<in>set batch. work x = Inl e" using settle_Some[OF e] by simp
  have "snd (promiseAllMap latency work batch) = Inl e"
    by (simp add: promiseAllMap_snd e)
  then have "promiseAllMap latency work batch = (fst (promiseAllMap latency work batch), Inl e)"
    by (simp add: prod_eq_iff)
  with x started_promiseAllMap[of latency work batch] show ?thesis by blast
qed

subsection \<open>The loop\<close>

lemma settle_None:
  "snd (settleUntilReject work xs) = None \<Longrightarrow> fst (settleUntilReject work xs) = map Settled xs"
proof (induction xs)
  case Nil
  then show ?case by simp
next
  case (Cons x xs)
  obtain tr res where tr: "settleUntilReject work xs = (tr, res)"
    by (cases "settleUntilReject work xs")
  show ?case
  proof (cases "work x")
    case (Inl e)
    with Cons.prems show ?thesis by simp
  next
    case (Inr r)
    with Cons.prems tr have "res = None" by simp
    with Cons.IH tr have "tr = map Settled xs" by simp
    with Inr tr show ?thesis by simp
  qed
qed

lemma promiseAllMap_Inr:
  assumes "promiseAllMap latency work batch = (tr, Inr rs)"
  shows "tr = map Started batch @ map Settled (sort_key latency batch)"
    and "collect (map work batch) = Inr rs"
proof -
  from assms have s: "snd (promiseAllMap latency work batch) = Inr rs" by simp
  have n: "snd (settleUntilReject work (sort_key latency batch)) = None"
  proof (cases "snd (settleUntilReject work (sort_key latency batch))")
    case None
    then show ?thesis .
  next
    case (Some e)
    with s show ?thesis by (simp add: promiseAllMap_snd)
  qed
  from s n show "collect (map work batch) = Inr rs" by (simp add: promiseAllMap_snd)
  from assms have "tr = fst (promiseAllMap latency work batch)" by simp
  then show "tr = map Started batch @ map Settled (sort_key latency batch)"
    using settle_None[OF n] by (simp add: promiseAllMap_fst)
qed

lemma batchLoop_done:
  "\<not> i < length items \<Longrightarrow>
     batchLoop c latency work key items i results trace = Some (trace, Inr results)"
  by (subst batchLoop.simps) simp

lemma batchLoop_reject:
  "i < length items \<Longrightarrow> promiseAllMap latency work (take c (drop i items)) = (tr, Inl e) \<Longrightarrow>
     batchLoop c latency work key items i results trace = Some (trace @ tr, Inl e)"
  by (subst batchLoop.simps) simp

lemma batchLoop_next:
  "i < length items \<Longrightarrow> promiseAllMap latency work (take c (drop i items)) = (tr, Inr rs) \<Longrightarrow>
     batchLoop c latency work key items i results trace
       = batchLoop c latency work key items (i + c)
           (setAll key results (take c (drop i items)) rs) (trace @ tr)"
  by (subst batchLoop.simps) simp

lemma drop_chunk: "take c (drop i items) @ drop (i + c) items = drop i items"
  by (metis append_take_drop_id drop_drop add.commute)

lemma loop_ok:
  assumes c: "0 < c"
  shows "\<forall>x\<in>set (drop i items). succeeds work x \<Longrightarrow>
     \<exists>tr. batchLoop c latency work key items i results trace
            = Some (trace @ tr, Inr (foldl (record1 key work) results (drop i items)))
          \<and> started tr = drop i items"
proof (induction "length items - i" arbitrary: i results trace rule: less_induct)
  case less
  show ?case
  proof (cases "i < length items")
    case False
    then show ?thesis by (simp add: batchLoop_done)
  next
    case True
    let ?batch = "take c (drop i items)"
    have sub: "set ?batch \<subseteq> set (drop i items)" by (rule set_take_subset)
    with less.prems have "\<forall>x\<in>set ?batch. succeeds work x" by blast
    from promiseAllMap_ok[OF this, of latency]
    obtain rs where rs: "promiseAllMap latency work ?batch
            = (map Started ?batch @ map Settled (sort_key latency ?batch), Inr rs)"
      "collect (map work ?batch) = Inr rs" by blast
    let ?blk = "map Started ?batch @ map Settled (sort_key latency ?batch)"
    have step: "batchLoop c latency work key items i results trace
       = batchLoop c latency work key items (i + c) (setAll key results ?batch rs) (trace @ ?blk)"
      by (rule batchLoop_next[OF True rs(1)])
    have m: "length items - (i + c) < length items - i" using True c by simp
    have "set (drop (i + c) items) \<subseteq> set (drop i items)"
      by (rule set_drop_subset_set_drop) simp
    with less.prems have ok': "\<forall>x\<in>set (drop (i + c) items). succeeds work x" by blast
    from less.hyps[OF m ok', of "setAll key results ?batch rs" "trace @ ?blk"]
    obtain tr' where tr': "batchLoop c latency work key items (i + c) (setAll key results ?batch rs) (trace @ ?blk)
        = Some ((trace @ ?blk) @ tr',
                Inr (foldl (record1 key work) (setAll key results ?batch rs) (drop (i + c) items)))"
      "started tr' = drop (i + c) items" by blast
    have "foldl (record1 key work) (setAll key results ?batch rs) (drop (i + c) items)
          = foldl (record1 key work) results (?batch @ drop (i + c) items)"
      by (simp add: setAll_collect[OF rs(2)])
    also have "\<dots> = foldl (record1 key work) results (drop i items)"
      by (simp only: drop_chunk)
    finally have f: "foldl (record1 key work) (setAll key results ?batch rs) (drop (i + c) items)
          = foldl (record1 key work) results (drop i items)" .
    have "started (?blk @ tr') = ?batch @ drop (i + c) items"
      by (simp add: started_append started_map_Started started_map_Settled tr'(2))
    then have s: "started (?blk @ tr') = drop i items" by (simp only: drop_chunk)
    from step tr'(1) f have "batchLoop c latency work key items i results trace
        = Some (trace @ (?blk @ tr'), Inr (foldl (record1 key work) results (drop i items)))"
      by simp
    with s show ?thesis by blast
  qed
qed

lemma firstFailure_in_chunk:
  assumes "\<exists>x\<in>set (take c d). \<not> succeeds work x"
  shows "firstFailure work d < c"
proof -
  from assms obtain j where j: "j < length (take c d)" "\<not> succeeds work (take c d ! j)"
    by (auto simp: in_set_conv_nth)
  then have "j < length d" "j < c" "\<not> succeeds work (d ! j)" by simp_all
  then have nj: "j < c" "\<not> succeeds work (d ! j)" by simp_all
  have "\<not> j < length (takeWhile (succeeds work) d)"
  proof
    assume a: "j < length (takeWhile (succeeds work) d)"
    then have "takeWhile (succeeds work) d ! j \<in> set (takeWhile (succeeds work) d)" by simp
    then have "succeeds work (takeWhile (succeeds work) d ! j)" by (blast dest: set_takeWhileD)
    with takeWhile_nth[OF a] nj(2) show False by simp
  qed
  with nj(1) show ?thesis by (simp add: firstFailure_def)
qed

lemma firstFailure_after_chunk:
  assumes "\<forall>x\<in>set (take c d). succeeds work x"
  shows "firstFailure work d = length (take c d) + firstFailure work (drop c d)"
proof -
  have "takeWhile (succeeds work) (take c d @ drop c d)
        = take c d @ takeWhile (succeeds work) (drop c d)"
    using assms by (intro takeWhile_append2) auto
  then show ?thesis by (simp add: firstFailure_def)
qed

lemma loop_fail:
  assumes c: "0 < c"
  shows "\<exists>x\<in>set (drop i items). \<not> succeeds work x \<Longrightarrow>
     \<exists>tr e. batchLoop c latency work key items i results trace = Some (trace @ tr, Inl e)
          \<and> (\<exists>x\<in>set (started tr). work x = Inl e)
          \<and> started tr = take (c * (firstFailure work (drop i items) div c + 1)) (drop i items)"
proof (induction "length items - i" arbitrary: i results trace rule: less_induct)
  case less
  let ?d = "drop i items"
  let ?batch = "take c ?d"
  from less.prems have True: "i < length items" by (cases "i < length items") auto
  show ?case
  proof (cases "\<exists>x\<in>set ?batch. \<not> succeeds work x")
    case True
    note bad = this
    from promiseAllMap_fail[OF bad, of latency]
    obtain tr e where tr: "promiseAllMap latency work ?batch = (tr, Inl e)"
      "started tr = ?batch" "\<exists>x\<in>set ?batch. work x = Inl e" by blast
    have "batchLoop c latency work key items i results trace = Some (trace @ tr, Inl e)"
      by (rule batchLoop_reject[OF \<open>i < length items\<close> tr(1)])
    moreover have "firstFailure work ?d div c = 0"
      using firstFailure_in_chunk[OF bad] by simp
    then have "take (c * (firstFailure work ?d div c + 1)) ?d = ?batch" by simp
    ultimately show ?thesis using tr(2,3) by auto
  next
    case False
    then have good: "\<forall>x\<in>set ?batch. succeeds work x" by blast
    from promiseAllMap_ok[OF good, of latency]
    obtain rs where rs: "promiseAllMap latency work ?batch
            = (map Started ?batch @ map Settled (sort_key latency ?batch), Inr rs)" by blast
    let ?blk = "map Started ?batch @ map Settled (sort_key latency ?batch)"
    have step: "batchLoop c latency work key items i results trace
       = batchLoop c latency work key items (i + c) (setAll key results ?batch rs) (trace @ ?blk)"
      by (rule batchLoop_next[OF True rs(1)])
    have m: "length items - (i + c) < length items - i" using True c by simp
    have dd: "drop (i + c) items = drop c ?d" by (simp add: add.commute)
    from less.prems obtain x where x: "x \<in> set ?d" "\<not> succeeds work x" by blast
    have "set ?d = set ?batch \<union> set (drop c ?d)"
      by (metis append_take_drop_id set_append)
    with x good have bad': "\<exists>x\<in>set (drop (i + c) items). \<not> succeeds work x"
      unfolding dd by blast
    then have ne: "drop c ?d \<noteq> []" unfolding dd by auto
    then have len: "length ?batch = c" by simp
    from less.hyps[OF m bad', of "setAll key results ?batch rs" "trace @ ?blk"]
    obtain tr' e where tr': "batchLoop c latency work key items (i + c) (setAll key results ?batch rs) (trace @ ?blk)
        = Some ((trace @ ?blk) @ tr', Inl e)"
      "\<exists>x\<in>set (started tr'). work x = Inl e"
      "started tr' = take (c * (firstFailure work (drop (i + c) items) div c + 1)) (drop (i + c) items)"
      by blast
    have ff: "firstFailure work ?d = c + firstFailure work (drop c ?d)"
      using firstFailure_after_chunk[OF good] len by simp
    have "(c + firstFailure work (drop c ?d)) div c = 1 + firstFailure work (drop c ?d) div c"
      using c div_add_self1[of c "firstFailure work (drop c ?d)"] by simp
    then have "c * (firstFailure work ?d div c + 1) = c + c * (firstFailure work (drop c ?d) div c + 1)"
      using ff by (simp add: algebra_simps)
    then have "take (c * (firstFailure work ?d div c + 1)) ?d
        = ?batch @ take (c * (firstFailure work (drop c ?d) div c + 1)) (drop c ?d)"
      by (simp only: take_add)
    moreover have "started (?blk @ tr') = ?batch @ started tr'"
      by (simp add: started_append started_map_Started started_map_Settled)
    ultimately have s: "started (?blk @ tr') = take (c * (firstFailure work ?d div c + 1)) ?d"
      using tr'(3) unfolding dd by simp
    have "\<exists>x\<in>set (started (?blk @ tr')). work x = Inl e"
      using tr'(2) by (auto simp: started_append)
    moreover from step tr'(1) have "batchLoop c latency work key items i results trace
        = Some (trace @ (?blk @ tr'), Inl e)" by simp
    ultimately show ?thesis using s by blast
  qed
qed

subsection \<open>The chunk discipline\<close>

lemma disc_starts:
  "size infl + length b \<le> c \<Longrightarrow> (b \<noteq> [] \<Longrightarrow> size infl = length pre mod c) \<Longrightarrow>
   chunkDiscipline c (pre @ b @ post) (length pre) infl (map Started b @ fs)
     = chunkDiscipline c (pre @ b @ post) (length pre + length b) (infl + mset b) fs"
proof (induction b arbitrary: pre infl)
  case Nil
  then show ?case by simp
next
  case (Cons x b)
  have sz: "size infl < c" "size infl = length pre mod c" using Cons.prems by simp_all
  have items: "pre @ (x # b) @ post = (pre @ [x]) @ b @ post" by simp
  have a: "size (add_mset x infl) + length b \<le> c" using Cons.prems(1) by simp
  have b: "size (add_mset x infl) = length (pre @ [x]) mod c" if "b \<noteq> []"
  proof -
    from that have "1 \<le> length b" by (cases b) auto
    with Cons.prems(1) have "Suc (length pre mod c) < c" using sz(2) by simp
    then have "Suc (length pre) mod c = Suc (length pre mod c)" by (simp add: mod_Suc)
    with sz(2) show ?thesis by simp
  qed
  have "chunkDiscipline c (pre @ (x # b) @ post) (length pre) infl (map Started (x # b) @ fs)
      = chunkDiscipline c ((pre @ [x]) @ b @ post) (length (pre @ [x])) (add_mset x infl) (map Started b @ fs)"
    using sz by (simp add: nth_append)
  also have "\<dots> = chunkDiscipline c ((pre @ [x]) @ b @ post) (length (pre @ [x]) + length b)
                     (add_mset x infl + mset b) fs"
    by (rule Cons.IH[OF a b])
  finally show ?case by simp
qed

lemma disc_settles:
  "mset ss \<subseteq># infl \<Longrightarrow> n mod c = 0 \<or> n = length items \<Longrightarrow>
   chunkDiscipline c items n infl (map Settled ss @ fs)
     = chunkDiscipline c items n (infl - mset ss) fs"
proof (induction ss arbitrary: infl)
  case Nil
  then show ?case by simp
next
  case (Cons x ss)
  from Cons.prems(1) have x: "x \<in># infl" and rest: "mset ss \<subseteq># infl - {#x#}"
    by (simp_all add: insert_subset_eq_iff)
  have "chunkDiscipline c items n infl (map Settled (x # ss) @ fs)
      = chunkDiscipline c items n (infl - {#x#}) (map Settled ss @ fs)"
    using x Cons.prems(2) by simp
  also have "\<dots> = chunkDiscipline c items n (infl - {#x#} - mset ss) fs"
    by (rule Cons.IH[OF rest Cons.prems(2)])
  finally show ?case by simp
qed

lemma disc_block:
  assumes "items = pre @ b @ post" and "c dvd length pre" and "length b \<le> c"
    and "length b = c \<or> post = []" and "mset ss \<subseteq># mset b"
  shows "chunkDiscipline c items (length pre) {#} (map Started b @ map Settled ss @ fs)
     = chunkDiscipline c items (length pre + length b) (mset b - mset ss) fs"
proof -
  have m: "(length pre + length b) mod c = 0 \<or> length pre + length b = length (pre @ b @ post)"
    using assms(2,4) by auto
  have "chunkDiscipline c (pre @ b @ post) (length pre) {#} (map Started b @ map Settled ss @ fs)
      = chunkDiscipline c (pre @ b @ post) (length pre + length b) ({#} + mset b) (map Settled ss @ fs)"
    using assms(2,3) by (intro disc_starts) auto
  also have "\<dots> = chunkDiscipline c (pre @ b @ post) (length pre + length b) (mset b - mset ss) fs"
    using disc_settles[OF _ m, of ss "mset b" fs] assms(5) by simp
  finally show ?thesis unfolding assms(1) .
qed

lemma mset_take_subseteq: "mset (take j xs) \<subseteq># mset xs"
proof -
  have "mset xs = mset (take j xs) + mset (drop j xs)"
    by (metis append_take_drop_id mset_append)
  then show ?thesis by simp
qed

lemma loop_discipline:
  assumes c: "0 < c"
  shows "c dvd i \<or> length items \<le> i \<Longrightarrow>
     \<exists>tr res. batchLoop c latency work key items i results trace = Some (trace @ tr, res)
          \<and> chunkDiscipline c items (min i (length items)) {#} tr"
proof (induction "length items - i" arbitrary: i results trace rule: less_induct)
  case less
  show ?case
  proof (cases "i < length items")
    case False
    then have "batchLoop c latency work key items i results trace = Some (trace @ [], Inr results)"
      by (simp add: batchLoop_done)
    then show ?thesis by (intro exI[of _ "[]"] exI[of _ "Inr results"]) simp
  next
    case True
    with less.prems have dv: "c dvd i" by auto
    let ?batch = "take c (drop i items)"
    let ?sorted = "sort_key latency ?batch"
    obtain tr res where p: "promiseAllMap latency work ?batch = (tr, res)"
      by (cases "promiseAllMap latency work ?batch")
    obtain j where "fst (promiseAllMap latency work ?batch)
        = map Started ?batch @ map Settled (take j ?sorted)"
      using promiseAllMap_shape[of ?batch latency work] by blast
    with p have tr: "tr = map Started ?batch @ map Settled (take j ?sorted)" by simp
    have items: "items = take i items @ ?batch @ drop (i + c) items"
      by (simp only: drop_chunk append_take_drop_id)
    have lp: "length (take i items) = i" using True by simp
    have lb: "length ?batch \<le> c" by simp
    have full: "length ?batch = c \<or> drop (i + c) items = []" by auto
    have n': "i + length ?batch = min (i + c) (length items)" using True by auto
    have blk: "chunkDiscipline c items i {#} (map Started ?batch @ map Settled ss @ fs)
        = chunkDiscipline c items (min (i + c) (length items)) (mset ?batch - mset ss) fs"
      if "mset ss \<subseteq># mset ?batch" for ss fs
      using disc_block[OF items _ lb full that, of fs] dv lp n' by simp
    show ?thesis
    proof (cases res)
      case (Inl e)
      with p have "batchLoop c latency work key items i results trace = Some (trace @ tr, Inl e)"
        by (intro batchLoop_reject[OF True]) simp
      moreover have "mset (take j ?sorted) \<subseteq># mset ?batch"
        using mset_take_subseteq[of j ?sorted] by simp
      from blk[OF this, of "[]"] have "chunkDiscipline c items i {#} tr" by (simp add: tr)
      ultimately show ?thesis using True by (intro exI[of _ tr] exI[of _ "Inl e"]) simp
    next
      case (Inr rs)
      with p have p': "promiseAllMap latency work ?batch = (tr, Inr rs)" by simp
      have tr2: "tr = map Started ?batch @ map Settled ?sorted"
        by (rule promiseAllMap_Inr(1)[OF p'])
      have step: "batchLoop c latency work key items i results trace
         = batchLoop c latency work key items (i + c) (setAll key results ?batch rs) (trace @ tr)"
        by (rule batchLoop_next[OF True p'])
      have m: "length items - (i + c) < length items - i" using True c by simp
      have dv': "c dvd (i + c) \<or> length items \<le> i + c" using dv by simp
      from less.hyps[OF m dv', of "setAll key results ?batch rs" "trace @ tr"]
      obtain tr' res' where tr': "batchLoop c latency work key items (i + c)
             (setAll key results ?batch rs) (trace @ tr) = Some ((trace @ tr) @ tr', res')"
        "chunkDiscipline c items (min (i + c) (length items)) {#} tr'" by blast
      have "mset ?sorted \<subseteq># mset ?batch" by simp
      from blk[OF this, of tr'] tr'(2) have "chunkDiscipline c items i {#} (tr @ tr')"
        by (simp add: tr2)
      moreover from step tr'(1)
      have "batchLoop c latency work key items i results trace = Some (trace @ (tr @ tr'), res')"
        by simp
      ultimately show ?thesis using True by (intro exI[of _ "tr @ tr'"] exI[of _ res']) simp
    qed
  qed
qed


subsection \<open>Failure of an item\<close>

lemma foldl_record1_untouched:
  "k \<notin> key ` set ys \<Longrightarrow> foldl (record1 key work) m ys k = m k"
  by (induction ys arbitrary: m) (auto simp: record1_def split: sum.splits)

lemma foldl_record1_lookup:
  "distinct (map key items) \<Longrightarrow> x \<in> set items \<Longrightarrow> work x = Inr r \<Longrightarrow>
     foldl (record1 key work) m items (key x) = Some r"
proof (induction items arbitrary: m)
  case Nil
  then show ?case by simp
next
  case (Cons y ys)
  show ?case
  proof (cases "x = y")
    case True
    with Cons.prems have "key x \<notin> key ` set ys" by auto
    then have "foldl (record1 key work) (record1 key work m y) ys (key x) = record1 key work m y (key x)"
      by (rule foldl_record1_untouched)
    moreover have "record1 key work m y (key x) = Some r"
      using True Cons.prems(3) by (simp add: record1_def)
    ultimately show ?thesis by simp
  next
    case False
    with Cons.prems have "x \<in> set ys" "distinct (map key ys)" by auto
    from Cons.IH[OF this(2,1) Cons.prems(3)] show ?thesis by simp
  qed
qed

text \<open>
  C1 (amended): a batch run is all or nothing. When the work call of every item succeeds,
  the run returns the map that holds each item's value under its id (with distinct ids,
  every item's own value), and every call was started. When the work call of some item
  fails, the calls of its chunk have all been started, and the batch call as a whole fails
  with the error of a failing item of that chunk: no result map is returned, and no call
  of a later chunk is started (the calls started are exactly the items up to the end of the
  first chunk that holds a failing item).
\<close>

theorem batch_run_is_all_or_nothing:
  assumes "0 < c"
  shows "((\<forall>x\<in>set items. succeeds work x) \<longrightarrow>
           (\<exists>tr. batchLoop c latency work key items 0 Map.empty []
                    = Some (tr, Inr (resultMap key work items))
                \<and> started tr = items
                \<and> (\<forall>x\<in>set items. \<forall>r. distinct (map key items) \<longrightarrow> work x = Inr r
                      \<longrightarrow> resultMap key work items (key x) = Some r)))
       \<and> ((\<exists>x\<in>set items. \<not> succeeds work x) \<longrightarrow>
           (\<exists>tr e. batchLoop c latency work key items 0 Map.empty [] = Some (tr, Inl e)
                \<and> (\<exists>x\<in>set (started tr). work x = Inl e)
                \<and> started tr = take (c * (firstFailure work items div c + 1)) items))"
proof (intro conjI impI)
  assume ok: "\<forall>x\<in>set items. succeeds work x"
  then have "\<forall>x\<in>set (drop 0 items). succeeds work x" by simp
  from loop_ok[OF assms this, of latency key Map.empty "[]"]
  obtain tr where "batchLoop c latency work key items 0 Map.empty []
       = Some (tr, Inr (resultMap key work items))" "started tr = items"
    by (auto simp: resultMap_def)
  moreover have "\<forall>x\<in>set items. \<forall>r. distinct (map key items) \<longrightarrow> work x = Inr r
                      \<longrightarrow> resultMap key work items (key x) = Some r"
    by (auto simp: resultMap_def intro: foldl_record1_lookup)
  ultimately show "\<exists>tr. batchLoop c latency work key items 0 Map.empty []
                    = Some (tr, Inr (resultMap key work items))
                \<and> started tr = items
                \<and> (\<forall>x\<in>set items. \<forall>r. distinct (map key items) \<longrightarrow> work x = Inr r
                      \<longrightarrow> resultMap key work items (key x) = Some r)"
    by blast
next
  assume "\<exists>x\<in>set items. \<not> succeeds work x"
  then have "\<exists>x\<in>set (drop 0 items). \<not> succeeds work x" by simp
  from loop_fail[OF assms this, of latency key Map.empty "[]"]
  show "\<exists>tr e. batchLoop c latency work key items 0 Map.empty [] = Some (tr, Inl e)
                \<and> (\<exists>x\<in>set (started tr). work x = Inl e)
                \<and> started tr = take (c * (firstFailure work items div c + 1)) items"
    by simp
qed

theorem batch_run_is_all_or_nothing_witness:
  "(\<exists>tr. enrichIndustriesBatch (stubEnrich []) (\<lambda>i. 0) sevenIndustries ()
            = Some (tr, Inr (resultMap idE (\<lambda>i. stubEnrich [] i ()) sevenIndustries))
        \<and> started tr = sevenIndustries
        \<and> resultMap idE (\<lambda>i. stubEnrich [] i ()) sevenIndustries ''g'' = Some ''enriched g'')
   \<and> (\<exists>tr e. enrichProcessesBatch (stubEnrich [''q'']) (\<lambda>p. 0) fourProcesses ()
            = Some (tr, Inl e)
        \<and> e = ''generation failed: q''
        \<and> started tr = map processNamed [''p'', ''q'', ''r''])"
proof -
  have ok: "\<forall>x\<in>set sevenIndustries. succeeds (\<lambda>i. stubEnrich [] i ()) x"
    by (simp add: succeeds_def stubEnrich_def)
  have d: "distinct (map idE sevenIndustries)"
    by (simp add: sevenIndustries_def industryNamed_def)
  have g: "industryNamed ''g'' \<in> set sevenIndustries" "stubEnrich [] (industryNamed ''g'') () = Inr ''enriched g''"
    "idE (industryNamed ''g'') = ''g''"
    by (simp_all add: sevenIndustries_def stubEnrich_def industryNamed_def)
  have bad: "\<exists>x\<in>set fourProcesses. \<not> succeeds (\<lambda>p. stubEnrich [''q''] p ()) x"
    by (simp add: succeeds_def stubEnrich_def fourProcesses_def processNamed_def)
  have ff: "firstFailure (\<lambda>p. stubEnrich [''q''] p ()) fourProcesses = 1"
    by (simp add: firstFailure_def succeeds_def stubEnrich_def fourProcesses_def processNamed_def)
  have errs: "\<And>x e. x \<in> set fourProcesses \<Longrightarrow> stubEnrich [''q''] x () = Inl e \<Longrightarrow> e = ''generation failed: q''"
    by (auto simp: stubEnrich_def split: if_splits)
  have five: "(0::nat) < 5" and three: "(0::nat) < 3" by simp_all
  note T = batch_run_is_all_or_nothing[OF five, where items = sevenIndustries
      and work = "\<lambda>i. stubEnrich [] i ()" and latency = "\<lambda>i. 0" and key = idE]
  from mp[OF conjunct1[OF T] ok]
  obtain tr where t: "batchLoop 5 (\<lambda>i. 0) (\<lambda>i. stubEnrich [] i ()) idE sevenIndustries 0 Map.empty []
        = Some (tr, Inr (resultMap idE (\<lambda>i. stubEnrich [] i ()) sevenIndustries))"
      "started tr = sevenIndustries"
      "\<forall>x\<in>set sevenIndustries. \<forall>r. distinct (map idE sevenIndustries) \<longrightarrow> stubEnrich [] x () = Inr r
          \<longrightarrow> resultMap idE (\<lambda>i. stubEnrich [] i ()) sevenIndustries (idE x) = Some r"
    by blast
  from t(3) g(1) d g(2) have "resultMap idE (\<lambda>i. stubEnrich [] i ()) sevenIndustries (idE (industryNamed ''g''))
      = Some ''enriched g''" by blast
  with t(1,2) have A: "\<exists>tr. enrichIndustriesBatch (stubEnrich []) (\<lambda>i. 0) sevenIndustries ()
            = Some (tr, Inr (resultMap idE (\<lambda>i. stubEnrich [] i ()) sevenIndustries))
        \<and> started tr = sevenIndustries
        \<and> resultMap idE (\<lambda>i. stubEnrich [] i ()) sevenIndustries ''g'' = Some ''enriched g''"
    by (simp add: enrichIndustriesBatch_def g(3))
  note U = batch_run_is_all_or_nothing[OF three, where items = fourProcesses
      and work = "\<lambda>p. stubEnrich [''q''] p ()" and latency = "\<lambda>p. 0" and key = idE]
  from mp[OF conjunct2[OF U] bad]
  obtain tr e where u: "batchLoop 3 (\<lambda>p. 0) (\<lambda>p. stubEnrich [''q''] p ()) idE fourProcesses 0 Map.empty []
        = Some (tr, Inl e)"
      "\<exists>x\<in>set (started tr). stubEnrich [''q''] x () = Inl e"
      "started tr = take (3 * (firstFailure (\<lambda>p. stubEnrich [''q''] p ()) fourProcesses div 3 + 1)) fourProcesses"
    by blast
  from u(3) have s: "started tr = map processNamed [''p'', ''q'', ''r'']"
    by (simp add: ff) (simp add: fourProcesses_def)
  from u(2) obtain x where "x \<in> set fourProcesses" "stubEnrich [''q''] x () = Inl e"
    using u(3) by (auto dest: in_set_takeD)
  then have "e = ''generation failed: q''" by (rule errs)
  with u(1) s have B: "\<exists>tr e. enrichProcessesBatch (stubEnrich [''q'']) (\<lambda>p. 0) fourProcesses ()
            = Some (tr, Inl e)
        \<and> e = ''generation failed: q''
        \<and> started tr = map processNamed [''p'', ''q'', ''r'']"
    by (simp add: enrichProcessesBatch_def)
  from A B show ?thesis by (rule conjI)
qed

text \<open>
  C1 (as stated): when the work call of one item fails, the calls of all later chunks still
  run, every other item's result is in the returned map, and the error is captured per
  item rather than thrown. Of seven industries the second fails: the batch call rejects
  with that error, returns no map, and the calls for the sixth and seventh industry are
  never started.
\<close>

theorem batch_failure_rejects_whole_run:
  "enrichIndustriesBatch (stubEnrich [''b'']) (\<lambda>i. 0) sevenIndustries ()
     = Some (map Started (map industryNamed [''a'', ''b'', ''c'', ''d'', ''e''])
               @ map Settled (map industryNamed [''a'', ''b'']),
             Inl ''generation failed: b'')"
  apply (simp add: enrichIndustriesBatch_def sevenIndustries_def)
  apply (subst batchLoop.simps)
  apply (simp add: promiseAllMap_def stubEnrich_def industryNamed_def)
  done

subsection \<open>Bounded concurrency\<close>




text \<open>The exported functions, with their constants 5 and 3.\<close>

lemma enrichIndustriesBatch_discipline:
  "\<exists>tr res. enrichIndustriesBatch enrich latency inds options = Some (tr, res)
      \<and> chunkDiscipline 5 inds 0 {#} tr"
proof -
  have "(5::nat) dvd 0 \<or> length inds \<le> 0" by simp
  from loop_discipline[OF _ this, of latency "\<lambda>industry. enrich industry options" idE Map.empty "[]"]
  show ?thesis by (simp add: enrichIndustriesBatch_def)
qed

lemma enrichOccupationsBatch_discipline:
  "\<exists>tr res. enrichOccupationsBatch enrich latency occs options = Some (tr, res)
      \<and> chunkDiscipline 3 occs 0 {#} tr"
proof -
  have "(3::nat) dvd 0 \<or> length occs \<le> 0" by simp
  from loop_discipline[OF _ this, of latency "\<lambda>occupation. enrich occupation options" idE Map.empty "[]"]
  show ?thesis by (simp add: enrichOccupationsBatch_def)
qed

section \<open>Properties of industry enrichment\<close>






text \<open>A generation call that rejects makes \<^verbatim>\<open>enrichIndustry\<close> reject with the same error.\<close>

lemma enrichIndustry_rejects:
  "businessTypesAI ai (businessTypesPrompt ind (case depth options of None \<Rightarrow> Standard | Some v \<Rightarrow> v)) = Inl e
     \<Longrightarrow> enrichIndustry ai ind options = Inl e"
  by (simp add: enrichIndustry_def Let_def)

section \<open>Properties of scoring, idea generation and the workflow status\<close>

text \<open>
  C2 (as stated): the tier of every viability score follows from its overall score by the
  thresholds 90, 75, 60, 40, and the recommendation follows from the tier. The code returns
  the collaborator's answer unchanged: an answer with overall 95, tier D and recommendation
  "pursue-aggressively" is returned as it is, although the thresholds give S for 95 and
  the mapping gives "skip" for D.
\<close>

theorem scoreStartupConcept_tier_not_from_thresholds:
  "scoreStartupConcept (\<lambda>prompt. Inr inconsistentScore) sampleConcept None None
     = (Inr inconsistentScore :: string + ViabilityScore)
   \<and> overall inconsistentScore = 95
   \<and> specTier (overall inconsistentScore) = TierS
   \<and> tier inconsistentScore = TierD
   \<and> specRecommendation (tier inconsistentScore) = Skip
   \<and> recommendation inconsistentScore = PursueAggressively"
  by (simp add: scoreStartupConcept_def inconsistentScore_def specTier_def)

text \<open>
  C2 (amended): the tier and the recommendation of the score returned by
  \<^verbatim>\<open>scoreStartupConcept\<close> are the ones the generation collaborator answered for the
  scoring prompt; the code applies no threshold and no mapping of its own. A rejected
  generation call rejects \<^verbatim>\<open>scoreStartupConcept\<close>.
\<close>

theorem scoreStartupConcept_tier_from_collaborator:
  "(viabilityScoreAI (scorePrompt concept enrichedIndustry enrichedOccupation) = Inr v \<longrightarrow>
      (\<exists>r. scoreStartupConcept viabilityScoreAI concept enrichedIndustry enrichedOccupation = Inr r
           \<and> tier r = tier v \<and> recommendation r = recommendation v))
   \<and> (viabilityScoreAI (scorePrompt concept enrichedIndustry enrichedOccupation) = Inl e \<longrightarrow>
      scoreStartupConcept viabilityScoreAI concept enrichedIndustry enrichedOccupation = Inl e)"
  by (simp add: scoreStartupConcept_def)

theorem scoreStartupConcept_tier_from_collaborator_witness:
  "\<exists>r. scoreStartupConcept (\<lambda>prompt. Inr inconsistentScore) sampleConcept None None
          = (Inr r :: string + ViabilityScore)
        \<and> tier r = TierD \<and> recommendation r = PursueAggressively"
proof -
  have a: "(\<lambda>prompt. Inr inconsistentScore) (scorePrompt sampleConcept None None)
             = (Inr inconsistentScore :: string + ViabilityScore)"
    by simp
  note T = scoreStartupConcept_tier_from_collaborator
             [of "\<lambda>prompt. Inr inconsistentScore" sampleConcept None None inconsistentScore]
  from mp[OF conjunct1[OF T] a]
  obtain r where r: "scoreStartupConcept (\<lambda>prompt. Inr inconsistentScore) sampleConcept None None
                    = (Inr r :: string + ViabilityScore)"
    "tier r = tier inconsistentScore" "recommendation r = recommendation inconsistentScore"
    by blast
  from r(2,3) have "tier r = TierD" "recommendation r = PursueAggressively"
    by (simp_all add: inconsistentScore_def)
  with r(1) show ?thesis by blast
qed

lemma specAggregate_inconsistentScore:
  "specAggregate (dimensionList (dimensionsV inconsistentScore)) = 50"
  by (simp add: specAggregate_def dimensionList_def inconsistentScore_def flatDimension_def)

text \<open>
  C3 (as stated): the overall score is the rounded weighted mean of the supplied sub-scores.
  The same answer has eight sub-scores of 50 with weight 1, whose weighted mean is 50, and
  an overall score of 95; it is returned unchanged.
\<close>

theorem scoreStartupConcept_overall_not_aggregate:
  "scoreStartupConcept (\<lambda>prompt. Inr inconsistentScore) sampleConcept None None
     = (Inr inconsistentScore :: string + ViabilityScore)
   \<and> overall inconsistentScore = 95
   \<and> specAggregate (dimensionList (dimensionsV inconsistentScore)) = 50"
  by (simp add: scoreStartupConcept_def specAggregate_inconsistentScore) (simp add: inconsistentScore_def)

text \<open>
  C3 (amended): the overall score of the returned viability score is the one the generation
  collaborator answered, together with the sub-scores and weights of the same answer; the
  code computes no aggregate from them and does not renormalise weights.
\<close>

theorem scoreStartupConcept_overall_from_collaborator:
  "(viabilityScoreAI (scorePrompt concept enrichedIndustry enrichedOccupation) = Inr v \<longrightarrow>
      (\<exists>r. scoreStartupConcept viabilityScoreAI concept enrichedIndustry enrichedOccupation = Inr r
           \<and> overall r = overall v \<and> dimensionsV r = dimensionsV v))
   \<and> (viabilityScoreAI (scorePrompt concept enrichedIndustry enrichedOccupation) = Inl e \<longrightarrow>
      scoreStartupConcept viabilityScoreAI concept enrichedIndustry enrichedOccupation = Inl e)"
  by (simp add: scoreStartupConcept_def)

theorem scoreStartupConcept_overall_from_collaborator_witness:
  "\<exists>r. scoreStartupConcept (\<lambda>prompt. Inr inconsistentScore) sampleConcept None None
          = (Inr r :: string + ViabilityScore)
        \<and> overall r = 95 \<and> score (marketSizeD (dimensionsV r)) = 50"
proof -
  have a: "(\<lambda>prompt. Inr inconsistentScore) (scorePrompt sampleConcept None None)
             = (Inr inconsistentScore :: string + ViabilityScore)"
    by simp
  note T = scoreStartupConcept_overall_from_collaborator
             [of "\<lambda>prompt. Inr inconsistentScore" sampleConcept None None inconsistentScore]
  from mp[OF conjunct1[OF T] a]
  obtain r where r: "scoreStartupConcept (\<lambda>prompt. Inr inconsistentScore) sampleConcept None None
                    = (Inr r :: string + ViabilityScore)"
    "overall r = overall inconsistentScore" "dimensionsV r = dimensionsV inconsistentScore"
    by blast
  from r(2,3) have "overall r = 95" "score (marketSizeD (dimensionsV r)) = 50"
    by (simp_all add: inconsistentScore_def flatDimension_def)
  with r(1) show ?thesis by blast
qed

text \<open>
  C6 (as stated): with a required dimension whose candidate list is empty, generation
  returns an empty list at once and never an error. \<^verbatim>\<open>generateStartupIdeas\<close> with the
  occupation dimension required and an empty occupation list still issues the generation
  call: it returns the idea the collaborator answers, and it fails when the call fails.
\<close>

theorem generateStartupIdeas_ignores_required_flag:
  "requireOccupation (constraints (hypothesisI noOccupations))
   \<and> occupationsI noOccupations = Some []
   \<and> generateStartupIdeas (\<lambda>prompt. Inr \<lparr>ideas = Some [oneIdea]\<rparr>) noOccupations
       = (Inr [oneIdea] :: string + Idea list)
   \<and> generateStartupIdeas (\<lambda>prompt. Inl ''model unavailable'') noOccupations = Inl ''model unavailable''"
  by (simp add: generateStartupIdeas_def noOccupations_def occupationRequired_def)

lemma ideasPrompt_constraints:
  "ideasPrompt (input\<lparr>hypothesisI := (hypothesisI input)\<lparr>constraints := k\<rparr>\<rparr>) = ideasPrompt input"
  by (simp add: ideasPrompt_def)

text \<open>
  C6 (amended): \<^verbatim>\<open>generateStartupIdeas\<close> does not read the constraints of the hypothesis
  (the required-dimension flags among them): replacing them leaves the result unchanged.
  Its result is the list of ideas the generation collaborator answers for the prompt (the
  empty list when the answer has no ideas), and the error of the call when it rejects.
\<close>

theorem generateStartupIdeas_passes_collaborator_answer:
  "generateStartupIdeas startupIdeasAI (input\<lparr>hypothesisI := (hypothesisI input)\<lparr>constraints := k\<rparr>\<rparr>)
     = generateStartupIdeas startupIdeasAI input
   \<and> generateStartupIdeas startupIdeasAI input
     = (case startupIdeasAI (ideasPrompt input) of
          Inl e \<Rightarrow> Inl e
        | Inr result \<Rightarrow> Inr (case ideas result of None \<Rightarrow> [] | Some xs \<Rightarrow> xs))"
  by (simp add: generateStartupIdeas_def ideasPrompt_constraints)

text \<open>
  C9 (as stated): the overall status of a workflow execution has a distinct value
  \<^verbatim>\<open>cancelled\<close>. The status enum of \<^verbatim>\<open>WorkflowExecution\<close> rejects that value.
\<close>

theorem workflow_status_has_no_cancelled:
  "zEnumParse WorkflowExecutionStatus ''cancelled'' = Inl (InvalidEnumValue ''cancelled'')"
  by (simp add: zEnumParse_def WorkflowExecutionStatus_def)

text \<open>
  C9 (amended): the overall status of a workflow execution is one of exactly five values,
  \<^verbatim>\<open>pending\<close>, \<^verbatim>\<open>running\<close>, \<^verbatim>\<open>completed\<close>, \<^verbatim>\<open>failed\<close> and \<^verbatim>\<open>paused\<close>; \<^verbatim>\<open>cancelled\<close> is
  not among them.
\<close>

theorem workflow_status_values:
  "((\<exists>v. zEnumParse WorkflowExecutionStatus s = Inr v)
      = (s = ''pending'' \<or> s = ''running'' \<or> s = ''completed'' \<or> s = ''failed'' \<or> s = ''paused''))
   \<and> zEnumParse WorkflowExecutionStatus ''cancelled'' = Inl (InvalidEnumValue ''cancelled'')
   \<and> zEnumParse WorkflowExecutionStatus ''paused'' = Inr ''paused''"
  by (auto simp: zEnumParse_def WorkflowExecutionStatus_def)

section \<open>Properties of the pipeline orchestrator\<close>

subsection \<open>Statuses only settle\<close>

lemma transition_static:
  "idP (transition invoke st s) = idP s"
  "depsOf (transition invoke st s) = depsOf s"
  "functionP (transition invoke st s) = functionP s"
  "inputP (transition invoke st s) = inputP s"
  by (simp_all add: transition_def finish_def launch_def depsOf_def split: sum.splits)

lemma transition_cases:
  "transition invoke st s = s
   \<or> (statusP s = Pending \<and> statusP (transition invoke st s) \<noteq> Pending)"
  by (simp add: transition_def finish_def launch_def split: sum.splits)

lemma transition_settled: "statusP s \<noteq> Pending \<Longrightarrow> transition invoke st s = s"
  by (simp add: transition_def)

lemma transition_fixed_pending:
  "transition invoke st s = s \<Longrightarrow> statusP s = Pending \<Longrightarrow> \<not> blocked st s \<and> \<not> eligible st s"
proof -
  assume f: "transition invoke st s = s" and p: "statusP s = Pending"
  have "statusP (transition invoke st s) \<noteq> Pending" if "blocked st s \<or> eligible st s"
    using that p by (auto simp: transition_def finish_def launch_def split: sum.splits)
  with f p show ?thesis by auto
qed

lemma find_update_stable:
  assumes "idP t = idP (st ! i)" and "i < length st"
    and "statusP (st ! i) \<noteq> Pending \<longrightarrow> t = st ! i"
    and "find (\<lambda>s. idP s = d) st = Some a" and "statusP a \<noteq> Pending"
  shows "find (\<lambda>s. idP s = d) (st[i := t]) = Some a"
  using assms
proof (induction st arbitrary: i)
  case Nil
  then show ?case by simp
next
  case (Cons h rest)
  show ?case
  proof (cases i)
    case 0
    show ?thesis
    proof (cases "idP h = d")
      case True
      with Cons.prems(4) have "a = h" by simp
      with Cons.prems(3,5) 0 have "t = h" by simp
      with 0 Cons.prems(4) show ?thesis by simp
    next
      case False
      with Cons.prems(1) 0 have "idP t \<noteq> d" by simp
      with False 0 Cons.prems(4) show ?thesis by simp
    qed
  next
    case (Suc j)
    show ?thesis
    proof (cases "idP h = d")
      case True
      with Suc Cons.prems(4) show ?thesis by simp
    next
      case False
      with Cons.prems(4) have f: "find (\<lambda>s. idP s = d) rest = Some a" by simp
      from Cons.prems(1,2,3) Suc have "idP t = idP (rest ! j)" "j < length rest"
        "statusP (rest ! j) \<noteq> Pending \<longrightarrow> t = rest ! j" by simp_all
      from Cons.IH[OF this f Cons.prems(5)] False Suc show ?thesis by simp
    qed
  qed
qed

lemma statusOf_look_stable:
  assumes "statusOf st d = Some x" and "x \<noteq> Pending"
  shows "statusOf (look invoke st i) d = Some x"
proof (cases "i < length st")
  case False
  then have "st[i := transition invoke st (st ! i)] = st" by (simp add: list_update_beyond)
  then show ?thesis using assms(1) by (simp add: look_def)
next
  case True
  from assms(1) obtain a where a: "find (\<lambda>s. idP s = d) st = Some a" "statusP a = x"
    by (auto simp: statusOf_def)
  have "find (\<lambda>s. idP s = d) (st[i := transition invoke st (st ! i)]) = Some a"
    using a assms(2) transition_settled[of "st ! i" invoke st]
    by (intro find_update_stable[OF _ True]) (simp_all add: transition_static)
  with a(2) show ?thesis by (simp add: statusOf_def look_def)
qed

lemma blocked_look: "blocked st s \<Longrightarrow> blocked (look invoke st i) s"
  unfolding blocked_def using statusOf_look_stable[of st _ _ invoke i] by fastforce

lemma eligible_look: "eligible st s \<Longrightarrow> eligible (look invoke st i) s"
  unfolding eligible_def using statusOf_look_stable[of st _ Completed invoke i] by fastforce

lemma blocked_cong: "depsOf s = depsOf s' \<Longrightarrow> blocked st s = blocked st s'"
  by (simp add: blocked_def)

lemma eligible_cong: "depsOf s = depsOf s' \<Longrightarrow> eligible st s = eligible st s'"
  by (simp add: eligible_def)


lemma look_beyond: "\<not> i < length st \<Longrightarrow> look invoke st i = st"
  by (simp add: look_def list_update_beyond)

lemma consistent_look:
  assumes "consistent invoke st"
  shows "consistent invoke (look invoke st i)"
proof (cases "i < length st")
  case False
  with assms show ?thesis by (simp add: look_beyond)
next
  case True
  let ?t = "transition invoke st (st ! i)"
  let ?st' = "look invoke st i"
  have old: "(statusP s = Skipped \<longrightarrow> blocked ?st' s)
      \<and> (statusP s = Completed \<longrightarrow>
            eligible ?st' s \<and> (\<exists>out. invoke (functionP s) (inputP s) = Inr out))
      \<and> (statusP s = Failed \<longrightarrow>
            eligible ?st' s \<and> (\<exists>err. invoke (functionP s) (inputP s) = Inl err))
      \<and> statusP s \<noteq> Running" if "s \<in> set st" for s
    using assms that blocked_look[of st s invoke i] eligible_look[of st s invoke i]
    unfolding consistent_def by blast
  have mem: "st ! i \<in> set st" using True by simp
  have new: "(statusP ?t = Skipped \<longrightarrow> blocked ?st' ?t)
      \<and> (statusP ?t = Completed \<longrightarrow>
            eligible ?st' ?t \<and> (\<exists>out. invoke (functionP ?t) (inputP ?t) = Inr out))
      \<and> (statusP ?t = Failed \<longrightarrow>
            eligible ?st' ?t \<and> (\<exists>err. invoke (functionP ?t) (inputP ?t) = Inl err))
      \<and> statusP ?t \<noteq> Running"
  proof (cases "statusP (st ! i) = Pending")
    case False
    then have "?t = st ! i" by (rule transition_settled)
    with old[OF mem] show ?thesis by simp
  next
    case p: True
    have b: "blocked ?st' ?t" if "blocked st (st ! i)"
      using blocked_look[OF that, of invoke i]
        blocked_cong[of ?t "st ! i" ?st'] by (simp add: transition_static)
    have e: "eligible ?st' ?t" if "eligible st (st ! i)"
      using eligible_look[OF that, of invoke i]
        eligible_cong[of ?t "st ! i" ?st'] by (simp add: transition_static)
    show ?thesis
    proof (cases "blocked st (st ! i)")
      case True
      then have "statusP ?t = Skipped" using p by (simp add: transition_def)
      with b[OF True] show ?thesis by simp
    next
      case nb: False
      show ?thesis
      proof (cases "eligible st (st ! i)")
        case False
        with nb p have "statusP ?t = Pending" by (simp add: transition_def)
        then show ?thesis by simp
      next
        case True
        have io: "functionP ?t = functionP (st ! i)" "inputP ?t = inputP (st ! i)"
          by (simp_all add: transition_static)
        show ?thesis
        proof (cases "invoke (functionP (st ! i)) (inputP (st ! i))")
          case (Inl err)
          with True nb p have "statusP ?t = Failed"
            by (simp add: transition_def finish_def launch_def)
          with e[OF True] Inl io show ?thesis by simp
        next
          case (Inr out)
          with True nb p have "statusP ?t = Completed"
            by (simp add: transition_def finish_def launch_def)
          with e[OF True] Inr io show ?thesis by simp
        qed
      qed
    qed
  qed
  have "set ?st' \<subseteq> insert ?t (set st)"
    unfolding look_def by (rule set_update_subset_insert)
  with old new show ?thesis unfolding consistent_def by blast
qed

lemma consistent_foldl:
  "consistent invoke st \<Longrightarrow> consistent invoke (foldl (look invoke) st js)"
  by (induction js arbitrary: st) (simp_all add: consistent_look)

lemma consistent_scan: "consistent invoke st \<Longrightarrow> consistent invoke (scan invoke st)"
  by (simp add: scan_def consistent_foldl)

lemma consistent_funpow:
  "consistent invoke st \<Longrightarrow> consistent invoke ((scan invoke ^^ k) st)"
  by (induction k) (simp_all add: consistent_scan)

lemma consistent_createRun: "consistent invoke (createRun steps)"
  by (simp add: consistent_def createRun_def)

lemma consistent_runSteps: "consistent invoke (runSteps invoke steps)"
  by (simp add: runSteps_def consistent_funpow consistent_createRun)

subsection \<open>The run reaches a state that no scan changes\<close>

lemma length_look: "length (look invoke st i) = length st"
  by (simp add: look_def)

lemma length_foldl_look: "length (foldl (look invoke) st js) = length st"
  by (induction js arbitrary: st) (simp_all add: length_look)

lemma length_scan: "length (scan invoke st) = length st"
  by (simp add: scan_def length_foldl_look)

lemma pendingCount_update:
  assumes "i < length st" and "statusP (st ! i) = Pending" and "statusP t \<noteq> Pending"
  shows "Suc (pendingCount (st[i := t])) = pendingCount st"
proof -
  have a: "st[i := t] = take i st @ t # drop (Suc i) st"
    using assms(1) by (rule upd_conv_take_nth_drop)
  have b: "st = take i st @ st ! i # drop (Suc i) st"
    using assms(1) by (rule id_take_nth_drop)
  have "pendingCount (take i st @ t # drop (Suc i) st)
      = pendingCount (take i st) + pendingCount (drop (Suc i) st)"
    using assms(3) by (simp add: pendingCount_def)
  moreover have "pendingCount (take i st @ st ! i # drop (Suc i) st)
      = Suc (pendingCount (take i st) + pendingCount (drop (Suc i) st))"
    using assms(2) by (simp add: pendingCount_def)
  ultimately show ?thesis using a b by metis
qed

lemma look_pending:
  "pendingCount (look invoke st i) \<le> pendingCount st
   \<and> (pendingCount (look invoke st i) = pendingCount st \<longrightarrow> look invoke st i = st)"
proof (cases "i < length st")
  case False
  then show ?thesis by (simp add: look_beyond)
next
  case True
  from transition_cases[of invoke st "st ! i"] show ?thesis
  proof
    assume "transition invoke st (st ! i) = st ! i"
    then show ?thesis by (simp add: look_def)
  next
    assume "statusP (st ! i) = Pending \<and> statusP (transition invoke st (st ! i)) \<noteq> Pending"
    then have "Suc (pendingCount (look invoke st i)) = pendingCount st"
      unfolding look_def using True by (intro pendingCount_update) auto
    then show ?thesis by simp
  qed
qed

lemma foldl_look_pending:
  "pendingCount (foldl (look invoke) st js) \<le> pendingCount st
   \<and> (pendingCount (foldl (look invoke) st js) = pendingCount st \<longrightarrow>
        foldl (look invoke) st js = st \<and> (\<forall>i\<in>set js. look invoke st i = st))"
proof (induction js arbitrary: st)
  case Nil
  then show ?case by simp
next
  case (Cons j js)
  let ?st1 = "look invoke st j"
  note one = look_pending[of invoke st j]
  note rest = Cons.IH[of ?st1]
  have le: "pendingCount (foldl (look invoke) st (j # js)) \<le> pendingCount st"
    using one rest by simp
  have eq: "foldl (look invoke) st (j # js) = st \<and> (\<forall>i\<in>set (j # js). look invoke st i = st)"
    if "pendingCount (foldl (look invoke) st (j # js)) = pendingCount st"
  proof -
    from that one rest have "pendingCount ?st1 = pendingCount st" by simp
    with one have s1: "?st1 = st" by simp
    with that rest have "foldl (look invoke) st js = st \<and> (\<forall>i\<in>set js. look invoke st i = st)"
      by simp
    with s1 show ?thesis by simp
  qed
  from le eq show ?case by blast
qed

lemma scan_pending: "pendingCount (scan invoke st) \<le> pendingCount st"
  using foldl_look_pending[of invoke st "[0..<length st]"] by (simp add: scan_def)

lemma scan_same_count:
  assumes "pendingCount (scan invoke st) = pendingCount st"
  shows "scan invoke st = st" and "\<forall>i<length st. look invoke st i = st"
  using foldl_look_pending[of invoke st "[0..<length st]"] assms by (simp_all add: scan_def)

lemma scan_fixpoint_no_move:
  assumes "scan invoke st = st" and "s \<in> set st"
  shows "transition invoke st s = s"
proof -
  from assms(2) obtain i where i: "i < length st" "st ! i = s" by (auto simp: in_set_conv_nth)
  from assms(1) have "pendingCount (scan invoke st) = pendingCount st" by simp
  from scan_same_count(2)[OF this] i(1) have "look invoke st i = st" by simp
  then have "st[i := transition invoke st (st ! i)] ! i = st ! i" by (simp add: look_def)
  with i show ?thesis by simp
qed

lemma funpow_progress:
  "scan invoke ((scan invoke ^^ k) st) = (scan invoke ^^ k) st
   \<or> pendingCount ((scan invoke ^^ k) st) + k \<le> pendingCount st"
proof (induction k)
  case 0
  then show ?case by simp
next
  case (Suc k)
  let ?sk = "(scan invoke ^^ k) st"
  show ?case
  proof (cases "scan invoke ?sk = ?sk")
    case True
    then show ?thesis by simp
  next
    case False
    with Suc have k: "pendingCount ?sk + k \<le> pendingCount st" by simp
    from False scan_same_count(1)[of invoke ?sk] scan_pending[of invoke ?sk]
    have "pendingCount (scan invoke ?sk) < pendingCount ?sk" by (cases "pendingCount (scan invoke ?sk) = pendingCount ?sk") auto
    with k show ?thesis by simp
  qed
qed

lemma runSteps_fixpoint: "scan invoke (runSteps invoke steps) = runSteps invoke steps"
proof -
  let ?st = "createRun steps"
  let ?final = "(scan invoke ^^ length steps) ?st"
  have bound: "pendingCount ?st \<le> length steps"
    by (simp add: pendingCount_def createRun_def)
  from funpow_progress[of invoke "length steps" ?st]
  have "scan invoke ?final = ?final"
  proof
    assume "scan invoke ?final = ?final"
    then show ?thesis .
  next
    assume "pendingCount ?final + length steps \<le> pendingCount ?st"
    with bound have "pendingCount ?final = 0" by simp
    with scan_pending[of invoke ?final] have "pendingCount (scan invoke ?final) = pendingCount ?final"
      by simp
    then show ?thesis by (rule scan_same_count(1))
  qed
  then show ?thesis by (simp add: runSteps_def)
qed

lemma idP_look: "map idP (look invoke st i) = map idP st"
proof -
  have "map idP (st[i := transition invoke st (st ! i)]) = (map idP st)[i := idP (st ! i)]"
    by (simp add: map_update transition_static)
  also have "\<dots> = map idP st"
  proof (cases "i < length st")
    case True
    then have "idP (st ! i) = map idP st ! i" by simp
    then show ?thesis by (simp only: list_update_id)
  next
    case False
    then show ?thesis by (simp add: list_update_beyond)
  qed
  finally show ?thesis by (simp add: look_def)
qed

lemma idP_foldl: "map idP (foldl (look invoke) st js) = map idP st"
  by (induction js arbitrary: st) (simp_all add: idP_look)

lemma idP_funpow: "map idP ((scan invoke ^^ k) st) = map idP st"
  by (induction k) (simp_all add: scan_def idP_foldl)

lemma idP_runSteps: "map idP (runSteps invoke steps) = map idP steps"
  by (simp add: runSteps_def idP_funpow) (simp add: createRun_def comp_def)

text \<open>
  C7: in every run, a step with a dependency whose final status is failed or skipped ends
  skipped (so never completed), while a step whose dependencies all end completed, and
  whose own operation succeeds, ends completed, whatever fails elsewhere. The run ends in
  a state that no further scan changes, and its steps are the given steps in their order.
\<close>

theorem failure_propagates_forward:
  "map idP (runSteps invoke steps) = map idP steps
   \<and> scan invoke (runSteps invoke steps) = runSteps invoke steps
   \<and> (\<forall>b\<in>set (runSteps invoke steps). \<forall>d\<in>set (depsOf b).
         statusOf (runSteps invoke steps) d = Some Failed
         \<or> statusOf (runSteps invoke steps) d = Some Skipped
         \<longrightarrow> statusP b = Skipped)
   \<and> (\<forall>c\<in>set (runSteps invoke steps).
         (\<forall>d\<in>set (depsOf c). statusOf (runSteps invoke steps) d = Some Completed)
         \<longrightarrow> (\<exists>out. invoke (functionP c) (inputP c) = Inr out)
         \<longrightarrow> statusP c = Completed)"
proof -
  let ?final = "runSteps invoke steps"
  note fx = runSteps_fixpoint[of invoke steps]
  note con = consistent_runSteps[of invoke steps]
  have p1: "statusP b = Skipped"
    if b: "b \<in> set ?final" and d: "d \<in> set (depsOf b)"
      and f: "statusOf ?final d = Some Failed \<or> statusOf ?final d = Some Skipped" for b d
  proof -
    from d f have bl: "blocked ?final b" unfolding blocked_def by blast
    from d f have ne: "\<not> eligible ?final b" unfolding eligible_def by force
    from con b have c: "(statusP b = Completed \<longrightarrow> eligible ?final b)"
      "(statusP b = Failed \<longrightarrow> eligible ?final b)" "statusP b \<noteq> Running"
      unfolding consistent_def by blast+
    have "statusP b \<noteq> Pending"
      using transition_fixed_pending[OF scan_fixpoint_no_move[OF fx b]] bl by blast
    with c ne show ?thesis by (cases "statusP b") auto
  qed
  have p2: "statusP c = Completed"
    if c: "c \<in> set ?final" and e: "\<forall>d\<in>set (depsOf c). statusOf ?final d = Some Completed"
      and ok: "\<exists>out. invoke (functionP c) (inputP c) = Inr out" for c
  proof -
    from e have el: "eligible ?final c" unfolding eligible_def .
    from e have nb: "\<not> blocked ?final c" unfolding blocked_def by force
    from con c have k: "(statusP c = Skipped \<longrightarrow> blocked ?final c)"
      "(statusP c = Failed \<longrightarrow> (\<exists>err. invoke (functionP c) (inputP c) = Inl err))"
      "statusP c \<noteq> Running"
      unfolding consistent_def by blast+
    have "statusP c \<noteq> Pending"
      using transition_fixed_pending[OF scan_fixpoint_no_move[OF fx c]] el by blast
    with k nb ok show ?thesis by (cases "statusP c") auto
  qed
  from idP_runSteps[of invoke steps] fx p1 p2 show ?thesis by blast
qed

text \<open>The diamond with a failing root: B, C and D are skipped, E completes.\<close>

lemma diamond_final:
  "runSteps enrichFails diamond =
     [(stepNamed ''D'' ''rank'' [''B'', ''C''])\<lparr>statusP := Skipped\<rparr>,
      (stepNamed ''B'' ''generate'' [''A''])\<lparr>statusP := Skipped\<rparr>,
      (stepNamed ''A'' ''enrich'' [])\<lparr>statusP := Failed, errorP := Some ''enrichment failed''\<rparr>,
      (stepNamed ''C'' ''score'' [''A''])\<lparr>statusP := Skipped\<rparr>,
      (stepNamed ''E'' ''brand'' [])\<lparr>statusP := Completed, outputP := Some ''brand done''\<rparr>]"
  by (simp add: runSteps_def diamond_def createRun_def scan_def look_def transition_def
      blocked_def eligible_def statusOf_def depsOf_def finish_def launch_def stepNamed_def
      enrichFails_def eval_nat_numeral upt_rec)

theorem failure_propagates_forward_witness:
  "statusOf (runSteps enrichFails diamond) ''A'' = Some Failed
   \<and> idP (runSteps enrichFails diamond ! 1) = ''B''
   \<and> statusP (runSteps enrichFails diamond ! 1) = Skipped
   \<and> idP (runSteps enrichFails diamond ! 0) = ''D''
   \<and> statusP (runSteps enrichFails diamond ! 0) = Skipped
   \<and> idP (runSteps enrichFails diamond ! 4) = ''E''
   \<and> statusP (runSteps enrichFails diamond ! 4) = Completed"
proof -
  let ?final = "runSteps enrichFails diamond"
  note T = failure_propagates_forward[of enrichFails diamond]
  have a: "statusOf ?final ''A'' = Some Failed"
    by (simp add: diamond_final statusOf_def stepNamed_def)
  have b: "?final ! 1 \<in> set ?final" "''A'' \<in> set (depsOf (?final ! 1))" "idP (?final ! 1) = ''B''"
    by (simp_all add: diamond_final depsOf_def stepNamed_def)
  from T b(1,2) a have sb: "statusP (?final ! 1) = Skipped" by blast
  from sb b(3) have ob: "statusOf ?final ''B'' = Some Skipped"
    by (simp add: diamond_final statusOf_def stepNamed_def)
  have d: "?final ! 0 \<in> set ?final" "''B'' \<in> set (depsOf (?final ! 0))" "idP (?final ! 0) = ''D''"
    by (simp_all add: diamond_final depsOf_def stepNamed_def)
  from T d(1,2) ob have sd: "statusP (?final ! 0) = Skipped" by blast
  have e: "?final ! 4 \<in> set ?final" "\<forall>d\<in>set (depsOf (?final ! 4)). statusOf ?final d = Some Completed"
    "\<exists>out. enrichFails (functionP (?final ! 4)) (inputP (?final ! 4)) = Inr out"
    "idP (?final ! 4) = ''E''"
    by (simp_all add: diamond_final depsOf_def stepNamed_def enrichFails_def)
  from T e(1,2,3) have se: "statusP (?final ! 4) = Completed" by blast
  from a b(3) sb d(3) sd e(4) se show ?thesis by simp
qed

section \<open>Properties of the filter engine\<close>

text \<open>
  C8: a filter that holds only a cap \<open>n\<close> returns the first \<open>n\<close> entities of the input, in
  the input's order: at most \<open>n\<close> entities, each one an entity of the input, unchanged.
\<close>

theorem applyFilter_cap_only:
  "applyFilter entities (capOnly n) = take n entities
   \<and> length (applyFilter entities (capOnly n)) \<le> n
   \<and> set (applyFilter entities (capOnly n)) \<subseteq> set entities"
proof -
  have "applyFilter entities (capOnly n) = take n entities"
    by (simp add: applyFilter_def capOnly_def)
  then show ?thesis by (simp add: set_take_subset)
qed

lemma applyFilter_sample:
  "map idD (applyFilter threeEntities (capOnly 2)) = [''Retail'', ''Finance'']"
  "map idD (applyFilter threeEntities ((capOnly 2)\<lparr>namePattern := Some ''BANK''\<rparr>)) = [''Banking'']"
  by (simp_all add: applyFilter_def capOnly_def threeEntities_def matchesName_def
      toLowerCase_def toLowerChar_def)

theorem applyFilter_cap_only_witness:
  "applyFilter threeEntities (capOnly 2) = take 2 threeEntities
   \<and> map idD (applyFilter threeEntities (capOnly 2)) = [''Retail'', ''Finance'']"
  using applyFilter_cap_only[of threeEntities 2] by (simp add: threeEntities_def)

end
